theory Spec2Isabelle
  imports Main "HOL-Library.Word"
begin

section \<open>The in-memory user and post repositories of gin-golang-api\<close>

text \<open>
  A shallow embedding of \<^verbatim>\<open>src/main.go\<close>. The program keeps four package-level
  variables (\<^verbatim>\<open>users\<close>, \<^verbatim>\<open>posts\<close>, \<^verbatim>\<open>userCounter\<close>, \<^verbatim>\<open>postCounter\<close>) and ten HTTP
  handlers that read and write them. Each handler becomes a function from the state
  before the request to the response and the state after it. What a handler reads from
  its \<^verbatim>\<open>gin.Context\<close> (the \<^verbatim>\<open>id\<close> path parameter, the outcome of \<^verbatim>\<open>ShouldBindJSON\<close>)
  and from the clock (\<^verbatim>\<open>time.Now()\<close>) is an argument of the function. Handlers are
  run one after another; the interleaving of concurrent requests is not modelled.
\<close>

subsection \<open>Data model\<close>

text \<open>
  Go's \<^verbatim>\<open>uint\<close> is a machine integer of 32 or 64 bits, depending on the target the
  program is compiled for, and \<^verbatim>\<open>userCounter++\<close> wraps around at \<open>2 ^ 32\<close> or
  \<open>2 ^ 64\<close>. The model is parametric in that width: a \<^verbatim>\<open>uint\<close> is a \<open>'w word\<close>, and
  \<open>LENGTH('w)\<close> is the width. The structs take the type of their identities as a
  parameter, which the handlers instantiate with \<open>'w uint\<close>. A \<^verbatim>\<open>time.Time\<close> is
  modelled as an integer instant, counted from the zero value of \<^verbatim>\<open>time.Time\<close>, which
  is what a struct literal leaves in a field it does not mention.
\<close>

type_synonym 'w uint = "'w word"
type_synonym uint64 = "64 word"
type_synonym Time = int

definition zeroTime :: Time where
  "zeroTime = 0"

record 'u User =
  ID :: 'u
  Username :: string
  Email :: string
  CreatedAt :: Time
  UpdatedAt :: Time

record 'u Post =
  ID :: 'u
  Title :: string
  Content :: string
  AuthorID :: 'u
  Author :: "'u User"
  CreatedAt :: Time
  UpdatedAt :: Time

text \<open>The zero value of \<^verbatim>\<open>User\<close>, left in \<^verbatim>\<open>Post.Author\<close> by \<^verbatim>\<open>createPost\<close>.\<close>

definition zeroUser :: "'w::len uint User" where
  "zeroUser = \<lparr>User.ID = 0, Username = [], Email = [],
                User.CreatedAt = zeroTime, User.UpdatedAt = zeroTime\<rparr>"

record CreateUserRequest =
  req_Username :: string
  req_Email :: string

record CreatePostRequest =
  req_Title :: string
  req_Content :: string

text \<open>The package-level variables, with their initial values (lines 42 to 45).\<close>

record 'u state =
  users :: "'u User list"
  posts :: "'u Post list"
  userCounter :: 'u
  postCounter :: 'u

definition init :: "'w::len uint state" where
  "init = \<lparr>users = [], posts = [], userCounter = 1, postCounter = 1\<rparr>"

subsection \<open>Responses\<close>

text \<open>
  \<^verbatim>\<open>c.JSON(code, obj)\<close> becomes a status code with a payload; one constructor for each
  shape of object the handlers send.
\<close>

datatype 'u payload =
    ErrorBody string
  | MessageBody string
  | UserBody "'u User"
  | PostBody "'u Post"
  | UsersBody "'u User list" nat
  | PostsBody "'u Post list" nat

record 'u response =
  status :: nat
  payload :: "'u payload"

abbreviation StatusOK :: nat where "StatusOK \<equiv> 200"
abbreviation StatusCreated :: nat where "StatusCreated \<equiv> 201"
abbreviation StatusBadRequest :: nat where "StatusBadRequest \<equiv> 400"
abbreviation StatusNotFound :: nat where "StatusNotFound \<equiv> 404"
abbreviation StatusConflict :: nat where "StatusConflict \<equiv> 409"

definition JSON :: "nat \<Rightarrow> 'u payload \<Rightarrow> 'u response" where
  "JSON code obj = \<lparr>status = code, payload = obj\<rparr>"

subsection \<open>Parsing the id path parameter\<close>

text \<open>
  Modelled from the spec: \<^verbatim>\<open>strconv.ParseUint\<close> belongs to Go's standard library and is
  not among the sources of the repository, which only call it as
  \<^verbatim>\<open>strconv.ParseUint(c.Param("id"), 10, 32)\<close>. The spec says of it: identity parameters
  are decimal unsigned 32-bit integers; non-numeric or out-of-range values are an error.
  The definition follows the library's loop for base 10 and bit size 32: it walks the
  bytes, a byte that is no decimal digit is a syntax error, and the accumulator
  \<open>n\<close> (a \<^verbatim>\<open>uint64\<close>) leaving the range \<open>0 .. maxVal\<close> is a range error. The empty
  string is a syntax error.
\<close>

datatype NumError = ErrSyntax | ErrRange

definition is_digit :: "char \<Rightarrow> bool" where
  "is_digit c = (of_char (CHR ''0'') \<le> (of_char c :: nat) \<and> (of_char c :: nat) \<le> of_char (CHR ''9''))"

definition digit_of :: "char \<Rightarrow> uint64" where
  "digit_of c = of_nat (of_char c - of_char (CHR ''0''))"

definition cutoff :: uint64 where
  "cutoff = (- 1) div 10 + 1"

definition maxVal :: uint64 where
  "maxVal = push_bit 32 1 - 1"

fun ParseUint_loop :: "string \<Rightarrow> uint64 \<Rightarrow> NumError + uint64" where
  "ParseUint_loop [] n = Inr n"
| "ParseUint_loop (c # cs) n =
     (if \<not> is_digit c then Inl ErrSyntax
      else if n \<ge> cutoff then Inl ErrRange
      else let n' = n * 10; n1 = n' + digit_of c
           in if n1 < n' \<or> n1 > maxVal then Inl ErrRange
              else ParseUint_loop cs n1)"

definition ParseUint :: "string \<Rightarrow> NumError + uint64" where
  "ParseUint s = (if s = [] then Inl ErrSyntax else ParseUint_loop s 0)"

text \<open>
  The spec's wording for a well-formed identity parameter, to compare with the parser:
  a non-empty string of decimal digits whose value is representable in 32 bits.
\<close>

definition digit_nat :: "char \<Rightarrow> nat" where
  "digit_nat c = of_char c - of_char (CHR ''0'')"

definition decimal_value :: "string \<Rightarrow> nat" where
  "decimal_value s = foldl (\<lambda>n c. n * 10 + digit_nat c) 0 s"

definition is_uint32_decimal :: "string \<Rightarrow> bool" where
  "is_uint32_decimal s = (s \<noteq> [] \<and> list_all is_digit s \<and> decimal_value s < 2 ^ 32)"

subsection \<open>User handlers\<close>

text \<open>\<^verbatim>\<open>getUsers\<close> (lines 118 to 123).\<close>

definition getUsers :: "'w::len uint state \<Rightarrow> 'w uint response \<times> 'w uint state" where
  "getUsers s = (JSON StatusOK (UsersBody (users s) (length (users s))), s)"

text \<open>
  The loop of \<^verbatim>\<open>createUser\<close> (lines 133 to 138): is there a user with the requested
  username or the requested email?
\<close>

fun userExists :: "'u User list \<Rightarrow> CreateUserRequest \<Rightarrow> bool" where
  "userExists [] req = False"
| "userExists (user # rest) req =
     (if Username user = req_Username req \<or> Email user = req_Email req then True
      else userExists rest req)"

text \<open>
  \<^verbatim>\<open>createUser\<close> (lines 125 to 150). The argument is the outcome of
  \<^verbatim>\<open>c.ShouldBindJSON(&req)\<close>: the error's text or the bound request. The struct literal
  names \<^verbatim>\<open>ID\<close>, \<^verbatim>\<open>Username\<close> and \<^verbatim>\<open>Email\<close> only, so both timestamps keep their zero
  value; the handler never reads the clock.
\<close>

definition createUser ::
  "string + CreateUserRequest \<Rightarrow> 'w::len uint state \<Rightarrow> 'w uint response \<times> 'w uint state" where
  "createUser bound s =
     (case bound of
        Inl err \<Rightarrow> (JSON StatusBadRequest (ErrorBody err), s)
      | Inr req \<Rightarrow>
          if userExists (users s) req
          then (JSON StatusConflict (ErrorBody ''User already exists''), s)
          else let user = \<lparr>User.ID = userCounter s, Username = req_Username req,
                           Email = req_Email req,
                           User.CreatedAt = zeroTime, User.UpdatedAt = zeroTime\<rparr>
               in (JSON StatusCreated (UserBody user),
                   s\<lparr>users := users s @ [user], userCounter := userCounter s + 1\<rparr>))"

text \<open>
  The loop of \<^verbatim>\<open>getUser\<close> (lines 159 to 164): the first user with the id. The
  conversion \<^verbatim>\<open>uint(id)\<close> of the parsed \<^verbatim>\<open>uint64\<close> is \<open>ucast\<close>.
\<close>

fun findUser :: "'w::len uint User list \<Rightarrow> 'w uint \<Rightarrow> 'w uint User option" where
  "findUser [] i = None"
| "findUser (user # rest) i = (if User.ID user = i then Some user else findUser rest i)"

definition getUser :: "string \<Rightarrow> 'w::len uint state \<Rightarrow> 'w uint response \<times> 'w uint state" where
  "getUser param s =
     (case ParseUint param of
        Inl err \<Rightarrow> (JSON StatusBadRequest (ErrorBody ''Invalid user ID''), s)
      | Inr i \<Rightarrow>
          (case findUser (users s) (ucast i) of
             Some user \<Rightarrow> (JSON StatusOK (UserBody user), s)
           | None \<Rightarrow> (JSON StatusNotFound (ErrorBody ''User not found''), s)))"

text \<open>
  The outer loops of \<^verbatim>\<open>updateUser\<close> and \<^verbatim>\<open>deleteUser\<close> (lines 182, 183 and 211, 212)
  stop at the first index whose user has the id.
\<close>

fun indexUser :: "'w::len uint User list \<Rightarrow> 'w uint \<Rightarrow> nat option" where
  "indexUser [] i = None"
| "indexUser (user # rest) i =
     (if User.ID user = i then Some 0 else map_option Suc (indexUser rest i))"

text \<open>
  The inner loop of \<^verbatim>\<open>updateUser\<close> (lines 185 to 190): is there a user with another id
  than the target's that has the requested username or email?
\<close>

fun conflictsWithOther ::
  "'w::len uint User list \<Rightarrow> 'w uint \<Rightarrow> CreateUserRequest \<Rightarrow> bool" where
  "conflictsWithOther [] target req = False"
| "conflictsWithOther (otherUser # rest) target req =
     (if User.ID otherUser \<noteq> target \<and>
         (Username otherUser = req_Username req \<or> Email otherUser = req_Email req)
      then True
      else conflictsWithOther rest target req)"

text \<open>\<^verbatim>\<open>updateUser\<close> (lines 169 to 202); \<open>now\<close> is what \<^verbatim>\<open>time.Now()\<close> returns.\<close>

definition updateUser ::
  "Time \<Rightarrow> string \<Rightarrow> string + CreateUserRequest \<Rightarrow> 'w::len uint state
     \<Rightarrow> 'w uint response \<times> 'w uint state" where
  "updateUser now param bound s =
     (case ParseUint param of
        Inl err \<Rightarrow> (JSON StatusBadRequest (ErrorBody ''Invalid user ID''), s)
      | Inr i \<Rightarrow>
          (case bound of
             Inl err \<Rightarrow> (JSON StatusBadRequest (ErrorBody err), s)
           | Inr req \<Rightarrow>
               (case indexUser (users s) (ucast i) of
                  None \<Rightarrow> (JSON StatusNotFound (ErrorBody ''User not found''), s)
                | Some k \<Rightarrow>
                    let user = users s ! k
                    in if conflictsWithOther (users s) (User.ID user) req
                       then (JSON StatusConflict
                               (ErrorBody ''Username or email already exists''), s)
                       else let users' = (users s)
                                  [k := user\<lparr>Username := req_Username req,
                                             Email := req_Email req,
                                             User.UpdatedAt := now\<rparr>]
                            in (JSON StatusOK (UserBody (users' ! k)),
                                s\<lparr>users := users'\<rparr>))))"

text \<open>
  \<^verbatim>\<open>deleteUser\<close> (lines 204 to 220);
  \<^verbatim>\<open>append(users[:i], users[i+1:]...)\<close> is the list without its element \<open>i\<close>.
\<close>

definition deleteUser :: "string \<Rightarrow> 'w::len uint state \<Rightarrow> 'w uint response \<times> 'w uint state" where
  "deleteUser param s =
     (case ParseUint param of
        Inl err \<Rightarrow> (JSON StatusBadRequest (ErrorBody ''Invalid user ID''), s)
      | Inr i \<Rightarrow>
          (case indexUser (users s) (ucast i) of
             Some k \<Rightarrow> (JSON StatusOK (MessageBody ''User deleted successfully''),
                        s\<lparr>users := take k (users s) @ drop (k + 1) (users s)\<rparr>)
           | None \<Rightarrow> (JSON StatusNotFound (ErrorBody ''User not found''), s)))"

subsection \<open>Post handlers\<close>

definition getPosts :: "'w::len uint state \<Rightarrow> 'w uint response \<times> 'w uint state" where
  "getPosts s = (JSON StatusOK (PostsBody (posts s) (length (posts s))), s)"

text \<open>
  \<^verbatim>\<open>createPost\<close> (lines 229 to 253): the author is the first user of the list, or 1
  when there is none; \<^verbatim>\<open>Author\<close> and both timestamps keep their zero value.
\<close>

definition createPost ::
  "string + CreatePostRequest \<Rightarrow> 'w::len uint state \<Rightarrow> 'w uint response \<times> 'w uint state" where
  "createPost bound s =
     (case bound of
        Inl err \<Rightarrow> (JSON StatusBadRequest (ErrorBody err), s)
      | Inr req \<Rightarrow>
          let authorID = (case users s of [] \<Rightarrow> 1 | user # rest \<Rightarrow> User.ID user);
              post = \<lparr>Post.ID = postCounter s, Title = req_Title req,
                      Content = req_Content req, AuthorID = authorID, Author = zeroUser,
                      Post.CreatedAt = zeroTime, Post.UpdatedAt = zeroTime\<rparr>
          in (JSON StatusCreated (PostBody post),
              s\<lparr>posts := posts s @ [post], postCounter := postCounter s + 1\<rparr>))"

fun findPost :: "'w::len uint Post list \<Rightarrow> 'w uint \<Rightarrow> 'w uint Post option" where
  "findPost [] i = None"
| "findPost (post # rest) i = (if Post.ID post = i then Some post else findPost rest i)"

definition getPost :: "string \<Rightarrow> 'w::len uint state \<Rightarrow> 'w uint response \<times> 'w uint state" where
  "getPost param s =
     (case ParseUint param of
        Inl err \<Rightarrow> (JSON StatusBadRequest (ErrorBody ''Invalid post ID''), s)
      | Inr i \<Rightarrow>
          (case findPost (posts s) (ucast i) of
             Some post \<Rightarrow> (JSON StatusOK (PostBody post), s)
           | None \<Rightarrow> (JSON StatusNotFound (ErrorBody ''Post not found''), s)))"

fun indexPost :: "'w::len uint Post list \<Rightarrow> 'w uint \<Rightarrow> nat option" where
  "indexPost [] i = None"
| "indexPost (post # rest) i =
     (if Post.ID post = i then Some 0 else map_option Suc (indexPost rest i))"

text \<open>\<^verbatim>\<open>updatePost\<close> (lines 272 to 297).\<close>

definition updatePost ::
  "Time \<Rightarrow> string \<Rightarrow> string + CreatePostRequest \<Rightarrow> 'w::len uint state
     \<Rightarrow> 'w uint response \<times> 'w uint state" where
  "updatePost now param bound s =
     (case ParseUint param of
        Inl err \<Rightarrow> (JSON StatusBadRequest (ErrorBody ''Invalid post ID''), s)
      | Inr i \<Rightarrow>
          (case bound of
             Inl err \<Rightarrow> (JSON StatusBadRequest (ErrorBody err), s)
           | Inr req \<Rightarrow>
               (case indexPost (posts s) (ucast i) of
                  None \<Rightarrow> (JSON StatusNotFound (ErrorBody ''Post not found''), s)
                | Some k \<Rightarrow>
                    let posts' = (posts s)
                          [k := (posts s ! k)\<lparr>Title := req_Title req,
                                              Content := req_Content req,
                                              Post.UpdatedAt := now\<rparr>]
                    in (JSON StatusOK (PostBody (posts' ! k)), s\<lparr>posts := posts'\<rparr>))))"

text \<open>\<^verbatim>\<open>deletePost\<close> (lines 299 to 315).\<close>

definition deletePost :: "string \<Rightarrow> 'w::len uint state \<Rightarrow> 'w uint response \<times> 'w uint state" where
  "deletePost param s =
     (case ParseUint param of
        Inl err \<Rightarrow> (JSON StatusBadRequest (ErrorBody ''Invalid post ID''), s)
      | Inr i \<Rightarrow>
          (case indexPost (posts s) (ucast i) of
             Some k \<Rightarrow> (JSON StatusOK (MessageBody ''Post deleted successfully''),
                        s\<lparr>posts := take k (posts s) @ drop (k + 1) (posts s)\<rparr>)
           | None \<Rightarrow> (JSON StatusNotFound (ErrorBody ''Post not found''), s)))"

subsection \<open>Requests and runs\<close>

text \<open>
  The routes registered in \<^verbatim>\<open>main\<close> (lines 89 to 107) on the two repositories; the
  root and the health route touch neither repository and are left out. A run serves a
  list of requests in order, each with the reading of the clock at its time.
\<close>

datatype request =
    GET_users
  | POST_users "string + CreateUserRequest"
  | GET_user string
  | PUT_user string "string + CreateUserRequest"
  | DELETE_user string
  | GET_posts
  | POST_posts "string + CreatePostRequest"
  | GET_post string
  | PUT_post string "string + CreatePostRequest"
  | DELETE_post string

fun handle ::
  "Time \<Rightarrow> request \<Rightarrow> 'w::len uint state \<Rightarrow> 'w uint response \<times> 'w uint state" where
  "handle now GET_users s = getUsers s"
| "handle now (POST_users bound) s = createUser bound s"
| "handle now (GET_user param) s = getUser param s"
| "handle now (PUT_user param bound) s = updateUser now param bound s"
| "handle now (DELETE_user param) s = deleteUser param s"
| "handle now GET_posts s = getPosts s"
| "handle now (POST_posts bound) s = createPost bound s"
| "handle now (GET_post param) s = getPost param s"
| "handle now (PUT_post param bound) s = updatePost now param bound s"
| "handle now (DELETE_post param) s = deletePost param s"

fun run ::
  "(Time \<times> request) list \<Rightarrow> 'w::len uint state \<Rightarrow> 'w uint response list \<times> 'w uint state" where
  "run [] s = ([], s)"
| "run ((now, rq) # rest) s =
     (let (r, s') = handle now rq s; (rs, s'') = run rest s' in (r # rs, s''))"

text \<open>
  The identities handed out in a run: only \<^verbatim>\<open>createUser\<close> answers 201 with a user, and
  only \<^verbatim>\<open>createPost\<close> answers 201 with a post.
\<close>

fun createdUserIDs :: "'u response list \<Rightarrow> 'u list" where
  "createdUserIDs [] = []"
| "createdUserIDs (r # rs) =
     (case payload r of
        UserBody u \<Rightarrow> (if status r = StatusCreated then User.ID u # createdUserIDs rs
                       else createdUserIDs rs)
      | _ \<Rightarrow> createdUserIDs rs)"

fun createdPostIDs :: "'u response list \<Rightarrow> 'u list" where
  "createdPostIDs [] = []"
| "createdPostIDs (r # rs) =
     (case payload r of
        PostBody p \<Rightarrow> (if status r = StatusCreated then Post.ID p # createdPostIDs rs
                       else createdPostIDs rs)
      | _ \<Rightarrow> createdPostIDs rs)"

subsection \<open>Vocabulary of the properties\<close>

text \<open>
  The requests on the user repository, and the \<^verbatim>\<open>id\<close> path parameter of the six by-id
  requests.
\<close>

fun is_user_request :: "request \<Rightarrow> bool" where
  "is_user_request GET_users = True"
| "is_user_request (POST_users bound) = True"
| "is_user_request (GET_user param) = True"
| "is_user_request (PUT_user param bound) = True"
| "is_user_request (DELETE_user param) = True"
| "is_user_request rq = False"

fun id_param :: "request \<Rightarrow> string option" where
  "id_param (GET_user param) = Some param"
| "id_param (PUT_user param bound) = Some param"
| "id_param (DELETE_user param) = Some param"
| "id_param (GET_post param) = Some param"
| "id_param (PUT_post param bound) = Some param"
| "id_param (DELETE_post param) = Some param"
| "id_param rq = None"

text \<open>Is there an entity with identity \<open>i\<close> in the repository the request is about?\<close>

definition entity_present :: "request \<Rightarrow> 'w::len uint \<Rightarrow> 'w uint state \<Rightarrow> bool" where
  "entity_present rq i s =
     (if is_user_request rq then i \<in> User.ID ` set (users s) else i \<in> Post.ID ` set (posts s))"

text \<open>
  The uniqueness the data model asks of a user collection: no two users share a
  username, no two users share an email.
\<close>

definition uniqueUsers :: "'u state \<Rightarrow> bool" where
  "uniqueUsers s = (distinct (map Username (users s)) \<and> distinct (map Email (users s)))"

text \<open>
  What the two conflict checks keep true of the user collection, whatever happens to the
  identities: two users that share a username or an email have the same identity.
\<close>

definition noClashAcrossIDs :: "'w::len uint state \<Rightarrow> bool" where
  "noClashAcrossIDs s =
     (\<forall>u \<in> set (users s). \<forall>v \<in> set (users s).
        Username u = Username v \<or> Email u = Email v \<longrightarrow> User.ID u = User.ID v)"

text \<open>
  A client that wears the counter out: it writes an identity in decimal, and repeats
  creating a post and deleting it by the identity it expects, so that the collection
  never holds more than one post. \<open>wearOut n\<close> does this for the identities
  \<open>1, \<dots>, n - 1\<close> and then creates two more posts.
\<close>

fun decimal :: "nat \<Rightarrow> string" where
  "decimal n =
     (if n < 10 then [char_of (of_char (CHR ''0'') + n)]
      else decimal (n div 10) @ [char_of (of_char (CHR ''0'') + n mod 10)])"

definition aPost :: "string + CreatePostRequest" where
  "aPost = Inr \<lparr>req_Title = ''T'', req_Content = ''C''\<rparr>"

definition cycle :: "nat \<Rightarrow> (Time \<times> request) list" where
  "cycle i = [(0, POST_posts aPost), (0, DELETE_post (decimal i))]"

definition wearOut :: "nat \<Rightarrow> (Time \<times> request) list" where
  "wearOut n = concat (map cycle [1..<n]) @ [(0, POST_posts aPost), (0, POST_posts aPost)]"

text \<open>
  A request whose body, if it has one, was bound: \<^verbatim>\<open>ShouldBindJSON\<close> returned no
  error.
\<close>

fun body_bound :: "request \<Rightarrow> bool" where
  "body_bound (POST_users (Inl err)) = False"
| "body_bound (PUT_user param (Inl err)) = False"
| "body_bound (POST_posts (Inl err)) = False"
| "body_bound (PUT_post param (Inl err)) = False"
| "body_bound rq = True"

text \<open>The values a counter takes from \<open>c\<close> on: \<open>c, c + 1, \<dots>, c + (n - 1)\<close>.\<close>

definition counting :: "'w::len word \<Rightarrow> nat \<Rightarrow> 'w word list" where
  "counting c n = map (\<lambda>k. c + of_nat k) [0..<n]"

text \<open>
  Sample requests and a sample state of a 64-bit build, to instantiate the properties.
  The state is the one after: create a post, create alice, create bob, delete alice,
  update bob at time 100, create carol, create a second post.
\<close>

definition aliceReq :: CreateUserRequest where
  "aliceReq = \<lparr>req_Username = ''alice'', req_Email = ''a@x.com''\<rparr>"

definition bobReq :: CreateUserRequest where
  "bobReq = \<lparr>req_Username = ''bob'', req_Email = ''b@x.com''\<rparr>"

definition carolReq :: CreateUserRequest where
  "carolReq = \<lparr>req_Username = ''carol'', req_Email = ''c@x.com''\<rparr>"

definition postReq :: CreatePostRequest where
  "postReq = \<lparr>req_Title = ''Hello'', req_Content = ''World''\<rparr>"

definition sample :: "64 uint state" where
  "sample =
     \<lparr>users = [\<lparr>User.ID = 2, Username = ''bob'', Email = ''b@x.com'',
                  User.CreatedAt = zeroTime, User.UpdatedAt = 100\<rparr>,
                \<lparr>User.ID = 3, Username = ''carol'', Email = ''c@x.com'',
                  User.CreatedAt = zeroTime, User.UpdatedAt = zeroTime\<rparr>],
      posts = [\<lparr>Post.ID = 1, Title = ''T'', Content = ''C'', AuthorID = 1,
                  Author = zeroUser, Post.CreatedAt = zeroTime, Post.UpdatedAt = zeroTime\<rparr>,
                \<lparr>Post.ID = 2, Title = ''T'', Content = ''C'', AuthorID = 2,
                  Author = zeroUser, Post.CreatedAt = zeroTime, Post.UpdatedAt = zeroTime\<rparr>],
      userCounter = 4, postCounter = 3\<rparr>"

definition history :: "(Time \<times> request) list" where
  "history =
     [(10, POST_posts aPost), (20, POST_users (Inr aliceReq)), (30, POST_users (Inr bobReq)),
      (40, DELETE_user ''1''), (100, PUT_user ''2'' (Inr bobReq)),
      (110, POST_users (Inr carolReq)), (120, POST_posts aPost)]"

text \<open>
  Two updates of the same user that read the same value from the clock, each followed
  by a read.
\<close>

definition sameTick :: "(Time \<times> request) list" where
  "sameTick =
     [(50, POST_users (Inr aliceReq)),
      (100, PUT_user ''1'' (Inr bobReq)), (100, GET_user ''1''),
      (100, PUT_user ''1'' (Inr carolReq)), (100, GET_user ''1'')]"

section \<open>Properties\<close>

subsection \<open>The parser accepts the decimal 32-bit numerals, and nothing else\<close>

lemma unat_cutoff: "unat cutoff = 1844674407370955162"
  by (simp add: cutoff_def)

lemma unat_maxVal: "unat maxVal = 4294967295"
  by (simp add: maxVal_def)

lemma digit_bound: "is_digit c \<Longrightarrow> digit_nat c \<le> 9"
  unfolding is_digit_def digit_nat_def by auto

lemma unat_digit_of: "is_digit c \<Longrightarrow> unat (digit_of c) = digit_nat c"
proof -
  assume "is_digit c"
  then have "digit_nat c < 2 ^ LENGTH(64)" using digit_bound [of c] by simp
  then show ?thesis unfolding digit_of_def digit_nat_def [symmetric]
    by (simp add: unat_of_nat)
qed

lemma unat_times10:
  assumes "unat (n :: uint64) < 2 ^ 32"
  shows "unat (n * 10) = unat n * 10"
proof -
  have "unat n * unat (10 :: uint64) < 2 ^ LENGTH(64)" using assms by simp
  then have "unat (n * 10) = unat n * unat (10 :: uint64)" by (simp only: unat_mult_lem)
  then show ?thesis by simp
qed

lemma unat_step:
  assumes "unat (n :: uint64) < 2 ^ 32" "is_digit c"
  shows "unat (n * 10 + digit_of c) = unat n * 10 + digit_nat c"
proof -
  have d: "digit_nat c \<le> 9" using assms(2) by (rule digit_bound)
  have "unat (n * 10) + unat (digit_of c) < 2 ^ LENGTH(64)"
    using assms d by (simp add: unat_times10 unat_digit_of)
  then have "unat (n * 10 + digit_of c) = unat (n * 10) + unat (digit_of c)"
    by (simp only: unat_add_lem)
  then show ?thesis using assms by (simp add: unat_times10 unat_digit_of)
qed

text \<open>
  While the accumulator is below \<open>2 ^ 32\<close>, neither of the two overflow tests of the
  64-bit arithmetic fires, and the loop goes on exactly when the next value fits 32 bits.
\<close>

lemma loop_step:
  assumes "unat n < 2 ^ 32" "is_digit c"
  shows "ParseUint_loop (c # cs) n =
           (if unat n * 10 + digit_nat c < 2 ^ 32 then ParseUint_loop cs (n * 10 + digit_of c)
            else Inl ErrRange)"
proof -
  have a: "\<not> cutoff \<le> n" using assms(1) by (simp add: word_le_nat_alt unat_cutoff)
  have b: "\<not> n * 10 + digit_of c < n * 10"
    using assms by (simp add: word_less_nat_alt unat_step unat_times10)
  have c: "(maxVal < n * 10 + digit_of c) = (\<not> unat n * 10 + digit_nat c < 2 ^ 32)"
    using assms by (auto simp add: word_less_nat_alt unat_step unat_maxVal)
  show ?thesis using assms(2) a b c by (simp add: Let_def)
qed

lemma foldl_decimal_ge: "a \<le> foldl (\<lambda>n c. n * 10 + digit_nat c) a cs"
proof (induction cs arbitrary: a)
  case Nil
  show ?case by simp
next
  case (Cons c cs)
  have "a \<le> a * 10 + digit_nat c" by simp
  also have "\<dots> \<le> foldl (\<lambda>n c. n * 10 + digit_nat c) (a * 10 + digit_nat c) cs"
    by (rule Cons.IH)
  finally show ?case by simp
qed

lemma ParseUint_loop_iff:
  "unat n < 2 ^ 32 \<Longrightarrow>
   (ParseUint_loop cs n = Inr m) =
   (list_all is_digit cs \<and> foldl (\<lambda>n c. n * 10 + digit_nat c) (unat n) cs < 2 ^ 32 \<and>
    unat m = foldl (\<lambda>n c. n * 10 + digit_nat c) (unat n) cs)"
proof (induction cs arbitrary: n)
  case Nil
  then show ?case by (auto simp: word_unat_eq_iff)
next
  case (Cons c cs)
  show ?case
  proof (cases "is_digit c")
    case False
    then show ?thesis by simp
  next
    case digit: True
    show ?thesis
    proof (cases "unat n * 10 + digit_nat c < 2 ^ 32")
      case True
      then have "unat (n * 10 + digit_of c) < 2 ^ 32"
        using Cons.prems digit by (simp add: unat_step)
      from Cons.IH [OF this] show ?thesis
        using Cons.prems digit True
        by (simp add: loop_step unat_step del: ParseUint_loop.simps)
    next
      case False
      have "unat n * 10 + digit_nat c
              \<le> foldl (\<lambda>n c. n * 10 + digit_nat c) (unat n * 10 + digit_nat c) cs"
        by (rule foldl_decimal_ge)
      with False
      have "\<not> foldl (\<lambda>n c. n * 10 + digit_nat c) (unat n * 10 + digit_nat c) cs < 2 ^ 32"
        by linarith
      then show ?thesis using Cons.prems digit False
        by (simp add: loop_step del: ParseUint_loop.simps)
    qed
  qed
qed

lemma ParseUint_iff:
  "(ParseUint s = Inr m) = (is_uint32_decimal s \<and> unat m = decimal_value s)"
proof (cases "s = []")
  case True
  then show ?thesis by (simp add: ParseUint_def is_uint32_decimal_def)
next
  case False
  have "unat (0 :: uint64) < 2 ^ 32" by simp
  from ParseUint_loop_iff [OF this, of s m] False show ?thesis
    by (auto simp: ParseUint_def is_uint32_decimal_def decimal_value_def)
qed

lemma ParseUint_error_iff: "(\<exists>e. ParseUint s = Inl e) = (\<not> is_uint32_decimal s)"
proof -
  have "(\<exists>e. ParseUint s = Inl e) = (\<not> (\<exists>m. ParseUint s = Inr m))"
    by (cases "ParseUint s") auto
  also have "\<dots> = (\<not> is_uint32_decimal s)"
  proof -
    have "is_uint32_decimal s \<Longrightarrow> \<exists>m :: uint64. unat m = decimal_value s"
      by (rule exI [of _ "of_nat (decimal_value s)"])
         (simp add: is_uint32_decimal_def unat_of_nat)
    then show ?thesis by (auto simp: ParseUint_iff)
  qed
  finally show ?thesis .
qed

text \<open>Some numerals, evaluated.\<close>

lemma ParseUint_1: "ParseUint ''1'' = Inr 1"
  by (simp add: ParseUint_def is_digit_def digit_of_def cutoff_def maxVal_def)

lemma ParseUint_2: "ParseUint ''2'' = Inr 2"
  by (simp add: ParseUint_def is_digit_def digit_of_def cutoff_def maxVal_def)

lemma ParseUint_7: "ParseUint ''7'' = Inr 7"
  by (simp add: ParseUint_def is_digit_def digit_of_def cutoff_def maxVal_def)

lemma ParseUint_abc: "ParseUint ''abc'' = Inl ErrSyntax"
  by (simp add: ParseUint_def is_digit_def)

text \<open>The conversion \<^verbatim>\<open>uint(id)\<close> of a parsed parameter is its decimal value.\<close>

lemma ucast_parsed:
  assumes "ParseUint param = Inr i"
  shows "(ucast i :: 'w::len word) = of_nat (decimal_value param)"
proof -
  from assms have "unat i = decimal_value param" by (simp add: ParseUint_iff)
  then show ?thesis by (metis of_nat_unat)
qed

subsection \<open>What the loops compute\<close>

lemma userExists_iff:
  "userExists us req =
     (\<exists>u \<in> set us. Username u = req_Username req \<or> Email u = req_Email req)"
  by (induction us) auto

lemma conflictsWithOther_iff:
  "conflictsWithOther us target req =
     (\<exists>u \<in> set us. User.ID u \<noteq> target \<and>
        (Username u = req_Username req \<or> Email u = req_Email req))"
  by (induction us) auto

lemma indexUser_None_iff: "(indexUser us i = None) = (i \<notin> User.ID ` set us)"
  by (induction us) auto

lemma indexUser_Some:
  "indexUser us i = Some k \<Longrightarrow>
     k < length us \<and> User.ID (us ! k) = i \<and> (\<forall>j < k. User.ID (us ! j) \<noteq> i)"
proof (induction us arbitrary: k)
  case Nil
  then show ?case by simp
next
  case (Cons u us)
  show ?case
  proof (cases "User.ID u = i")
    case True
    with Cons.prems show ?thesis by simp
  next
    case False
    with Cons.prems obtain k' where k': "indexUser us i = Some k'" "k = Suc k'"
      by auto
    from Cons.IH [OF k'(1)] False k'(2) show ?thesis
      by (auto simp: nth_Cons split: nat.splits)
  qed
qed

lemma findUser_indexUser: "findUser us i = map_option ((!) us) (indexUser us i)"
  by (induction us) (auto simp: option.map_comp comp_def)

lemma indexPost_None_iff: "(indexPost ps i = None) = (i \<notin> Post.ID ` set ps)"
  by (induction ps) auto

lemma indexPost_Some:
  "indexPost ps i = Some k \<Longrightarrow>
     k < length ps \<and> Post.ID (ps ! k) = i \<and> (\<forall>j < k. Post.ID (ps ! j) \<noteq> i)"
proof (induction ps arbitrary: k)
  case Nil
  then show ?case by simp
next
  case (Cons p ps)
  show ?case
  proof (cases "Post.ID p = i")
    case True
    with Cons.prems show ?thesis by simp
  next
    case False
    with Cons.prems obtain k' where k': "indexPost ps i = Some k'" "k = Suc k'"
      by auto
    from Cons.IH [OF k'(1)] False k'(2) show ?thesis
      by (auto simp: nth_Cons split: nat.splits)
  qed
qed

lemma findPost_indexPost: "findPost ps i = map_option ((!) ps) (indexPost ps i)"
  by (induction ps) (auto simp: option.map_comp comp_def)

text \<open>An update in place keeps every identity where it is.\<close>

lemma indexUser_same_IDs:
  "map User.ID us = map User.ID us' \<Longrightarrow> indexUser us i = indexUser us' i"
proof (induction us arbitrary: us')
  case Nil
  then show ?case by simp
next
  case (Cons u us)
  then obtain u' rest where "us' = u' # rest" by (cases us') auto
  with Cons show ?case by auto
qed

lemma IDs_after_update:
  "k < length us \<Longrightarrow>
   map User.ID (us[k := (us ! k)\<lparr>Username := n, Email := e, User.UpdatedAt := t\<rparr>]) =
   map User.ID us"
  by (simp add: map_update list_update_same_conv)

text \<open>The sample state is what the sample history leaves behind.\<close>

lemma run_history: "snd (run history init) = sample"
  by (simp add: history_def init_def sample_def aPost_def aliceReq_def bobReq_def carolReq_def
        createUser_def createPost_def deleteUser_def updateUser_def JSON_def Let_def
        ParseUint_1 ParseUint_2)

subsection \<open>Identities and counters\<close>

lemma createdUserIDs_Cons: "createdUserIDs (r # rs) = createdUserIDs [r] @ createdUserIDs rs"
  by (cases "payload r") auto

lemma createdPostIDs_Cons: "createdPostIDs (r # rs) = createdPostIDs [r] @ createdPostIDs rs"
  by (cases "payload r") auto

lemma createdPostIDs_append:
  "createdPostIDs (rs @ rs') = createdPostIDs rs @ createdPostIDs rs'"
proof (induction rs)
  case Nil
  show ?case by simp
next
  case (Cons r rs)
  have "createdPostIDs ((r # rs) @ rs') = createdPostIDs [r] @ createdPostIDs (rs @ rs')"
    using createdPostIDs_Cons [of r "rs @ rs'"] by simp
  also have "\<dots> = createdPostIDs (r # rs) @ createdPostIDs rs'"
    using Cons.IH createdPostIDs_Cons [of r rs] by simp
  finally show ?case .
qed

text \<open>
  One request: either no user identity is handed out and the user counter stays, or the
  counter's value is handed out and the counter moves on by one. The same for posts.
\<close>

lemma handle_user_step:
  assumes "handle now rq s = (r, s')"
  shows "createdUserIDs [r] = [] \<and> userCounter s' = userCounter s \<or>
         createdUserIDs [r] = [userCounter s] \<and> userCounter s' = userCounter s + 1"
  using assms
  by (cases rq)
     (auto simp: getUsers_def createUser_def getUser_def updateUser_def deleteUser_def
                 getPosts_def createPost_def getPost_def updatePost_def deletePost_def
                 JSON_def Let_def
           split: sum.splits option.splits if_splits)

lemma handle_post_step:
  assumes "handle now rq s = (r, s')"
  shows "createdPostIDs [r] = [] \<and> postCounter s' = postCounter s \<or>
         createdPostIDs [r] = [postCounter s] \<and> postCounter s' = postCounter s + 1"
  using assms
  by (cases rq)
     (auto simp: getUsers_def createUser_def getUser_def updateUser_def deleteUser_def
                 getPosts_def createPost_def getPost_def updatePost_def deletePost_def
                 JSON_def Let_def
           split: sum.splits option.splits if_splits)

lemma counting_0: "counting c 0 = []"
  by (simp add: counting_def)

lemma counting_Suc: "counting c (Suc n) = c # counting (c + 1) n"
  by (simp add: counting_def map_upt_Suc add.assoc del: upt_Suc)

text \<open>
  Over a run, whatever it interleaves: the identities handed out are the successive
  values of the counter, computed in the machine arithmetic of \<^verbatim>\<open>uint\<close>.
\<close>

lemma run_userCounter:
  "run reqs s = (rs, s') \<Longrightarrow>
     createdUserIDs rs = counting (userCounter s) (length (createdUserIDs rs)) \<and>
     userCounter s' = userCounter s + of_nat (length (createdUserIDs rs))"
proof (induction reqs arbitrary: s rs s')
  case Nil
  then show ?case by (simp add: counting_0)
next
  case (Cons a reqs)
  obtain now rq where a: "a = (now, rq)" by (cases a)
  obtain r s1 where h: "handle now rq s = (r, s1)" by (cases "handle now rq s")
  obtain rs1 s2 where t: "run reqs s1 = (rs1, s2)" by (cases "run reqs s1")
  from Cons.prems a h t have rs: "rs = r # rs1" and s': "s' = s2" by simp_all
  note IH = Cons.IH [OF t]
  have ids: "createdUserIDs rs = createdUserIDs [r] @ createdUserIDs rs1"
    unfolding rs by (rule createdUserIDs_Cons)
  from handle_user_step [OF h] show ?case
  proof
    assume "createdUserIDs [r] = [] \<and> userCounter s1 = userCounter s"
    with IH ids s' show ?thesis by simp
  next
    assume st: "createdUserIDs [r] = [userCounter s] \<and> userCounter s1 = userCounter s + 1"
    then have len: "length (createdUserIDs rs) = Suc (length (createdUserIDs rs1))"
      using ids by simp
    have "createdUserIDs rs =
            userCounter s # counting (userCounter s + 1) (length (createdUserIDs rs1))"
      using ids st IH by simp
    then have 1: "createdUserIDs rs = counting (userCounter s) (length (createdUserIDs rs))"
      unfolding len counting_Suc .
    have 2: "userCounter s' = userCounter s + of_nat (length (createdUserIDs rs))"
      using IH st s' by (simp add: len add.assoc)
    from 1 2 show ?thesis ..
  qed
qed

lemma run_postCounter:
  "run reqs s = (rs, s') \<Longrightarrow>
     createdPostIDs rs = counting (postCounter s) (length (createdPostIDs rs)) \<and>
     postCounter s' = postCounter s + of_nat (length (createdPostIDs rs))"
proof (induction reqs arbitrary: s rs s')
  case Nil
  then show ?case by (simp add: counting_0)
next
  case (Cons a reqs)
  obtain now rq where a: "a = (now, rq)" by (cases a)
  obtain r s1 where h: "handle now rq s = (r, s1)" by (cases "handle now rq s")
  obtain rs1 s2 where t: "run reqs s1 = (rs1, s2)" by (cases "run reqs s1")
  from Cons.prems a h t have rs: "rs = r # rs1" and s': "s' = s2" by simp_all
  note IH = Cons.IH [OF t]
  have ids: "createdPostIDs rs = createdPostIDs [r] @ createdPostIDs rs1"
    unfolding rs by (rule createdPostIDs_Cons)
  from handle_post_step [OF h] show ?case
  proof
    assume "createdPostIDs [r] = [] \<and> postCounter s1 = postCounter s"
    with IH ids s' show ?thesis by simp
  next
    assume st: "createdPostIDs [r] = [postCounter s] \<and> postCounter s1 = postCounter s + 1"
    then have len: "length (createdPostIDs rs) = Suc (length (createdPostIDs rs1))"
      using ids by simp
    have "createdPostIDs rs =
            postCounter s # counting (postCounter s + 1) (length (createdPostIDs rs1))"
      using ids st IH by simp
    then have 1: "createdPostIDs rs = counting (postCounter s) (length (createdPostIDs rs))"
      unfolding len counting_Suc .
    have 2: "postCounter s' = postCounter s + of_nat (length (createdPostIDs rs))"
      using IH st s' by (simp add: len add.assoc)
    from 1 2 show ?thesis ..
  qed
qed

text \<open>While the counter does not wrap, its successive values increase.\<close>

lemma unat_counting:
  assumes "unat (c :: 'w::len word) + k < 2 ^ LENGTH('w)"
  shows "unat (c + of_nat k) = unat c + k"
proof -
  have k: "k < 2 ^ LENGTH('w)" using assms by simp
  then have u: "unat (of_nat k :: 'w word) = k" by (simp add: unat_of_nat)
  with assms have "unat c + unat (of_nat k :: 'w word) < 2 ^ LENGTH('w)" by simp
  then have "unat (c + of_nat k) = unat c + unat (of_nat k :: 'w word)"
    by (simp only: unat_add_lem)
  then show ?thesis using u by simp
qed

lemma counting_sorted:
  assumes "unat (c :: 'w::len word) + n \<le> 2 ^ LENGTH('w)"
  shows "sorted_wrt (<) (counting c n)"
proof -
  have "c + of_nat i < c + of_nat j" if "i < j" "j < n" for i j
  proof -
    from that assms have "unat c + i < 2 ^ LENGTH('w)" "unat c + j < 2 ^ LENGTH('w)"
      by simp_all
    then have "unat (c + of_nat i) = unat c + i" "unat (c + of_nat j) = unat c + j"
      by (simp_all add: unat_counting)
    with that show ?thesis by (simp add: word_less_nat_alt)
  qed
  then show ?thesis
    by (simp add: counting_def sorted_wrt_iff_nth_less)
qed

lemma counting_lower:
  assumes "unat (c :: 'w::len word) + n \<le> 2 ^ LENGTH('w)" and "i \<in> set (counting c n)"
  shows "c \<le> i"
proof -
  from assms(2) obtain k where k: "k < n" "i = c + of_nat k"
    by (auto simp: counting_def)
  with assms(1) have "unat (c + of_nat k) = unat c + k" by (simp add: unat_counting)
  with k show ?thesis by (simp add: word_le_nat_alt)
qed

lemma sorted_wrt_less_distinct: "sorted_wrt (<) (xs :: 'a::linorder list) \<Longrightarrow> distinct xs"
  by (induction xs) auto

text \<open>
  Claim C1, as amended. For every run from every state, on the user repository and on
  the post repository alike: the identities returned by the successful creates are the
  successive values of the counter, each successful create moves the counter on by
  exactly one in the arithmetic of \<^verbatim>\<open>uint\<close> (that is, modulo \<open>2 ^ LENGTH('w)\<close>), and
  nothing else changes the counter. As long as the counter does not wrap around (its
  value at the start plus the number of successful creates is at most
  \<open>2 ^ LENGTH('w)\<close>), the identities are strictly increasing, none is below the counter's
  value at the start, and none is returned twice, deletes in between or not.
\<close>

theorem identities_increase_until_wrap:
  fixes s :: "'w::len uint state"
  assumes "run reqs s = (rs, s')"
  shows "createdUserIDs rs = counting (userCounter s) (length (createdUserIDs rs)) \<and>
         userCounter s' = userCounter s + of_nat (length (createdUserIDs rs)) \<and>
         createdPostIDs rs = counting (postCounter s) (length (createdPostIDs rs)) \<and>
         postCounter s' = postCounter s + of_nat (length (createdPostIDs rs)) \<and>
         (unat (userCounter s) + length (createdUserIDs rs) \<le> 2 ^ LENGTH('w) \<longrightarrow>
            sorted_wrt (<) (createdUserIDs rs) \<and> distinct (createdUserIDs rs) \<and>
            (\<forall>i \<in> set (createdUserIDs rs). userCounter s \<le> i)) \<and>
         (unat (postCounter s) + length (createdPostIDs rs) \<le> 2 ^ LENGTH('w) \<longrightarrow>
            sorted_wrt (<) (createdPostIDs rs) \<and> distinct (createdPostIDs rs) \<and>
            (\<forall>i \<in> set (createdPostIDs rs). postCounter s \<le> i))"
proof -
  note u = run_userCounter [OF assms] and p = run_postCounter [OF assms]
  have us: "sorted_wrt (<) (createdUserIDs rs) \<and> distinct (createdUserIDs rs) \<and>
            (\<forall>i \<in> set (createdUserIDs rs). userCounter s \<le> i)"
    if "unat (userCounter s) + length (createdUserIDs rs) \<le> 2 ^ LENGTH('w)"
  proof -
    from counting_sorted [OF that] u have "sorted_wrt (<) (createdUserIDs rs)" by simp
    moreover from this have "distinct (createdUserIDs rs)" by (rule sorted_wrt_less_distinct)
    moreover have "\<forall>i \<in> set (createdUserIDs rs). userCounter s \<le> i"
      using counting_lower [OF that] u by metis
    ultimately show ?thesis by simp
  qed
  have ps: "sorted_wrt (<) (createdPostIDs rs) \<and> distinct (createdPostIDs rs) \<and>
            (\<forall>i \<in> set (createdPostIDs rs). postCounter s \<le> i)"
    if "unat (postCounter s) + length (createdPostIDs rs) \<le> 2 ^ LENGTH('w)"
  proof -
    from counting_sorted [OF that] p have "sorted_wrt (<) (createdPostIDs rs)" by simp
    moreover from this have "distinct (createdPostIDs rs)" by (rule sorted_wrt_less_distinct)
    moreover have "\<forall>i \<in> set (createdPostIDs rs). postCounter s \<le> i"
      using counting_lower [OF that] p by metis
    ultimately show ?thesis by simp
  qed
  from u p us ps show ?thesis by blast
qed

text \<open>
  The sample history, on a 64-bit build: it hands out the user identities 1, 2, 3 and
  the post identities 1, 2, with a delete in between.
\<close>

lemma run_history_ids:
  "createdUserIDs (fst (run history (init :: 64 uint state))) = [1, 2, 3] \<and>
   createdPostIDs (fst (run history (init :: 64 uint state))) = [1, 2]"
  by (simp add: history_def init_def aPost_def aliceReq_def bobReq_def carolReq_def
        createUser_def createPost_def deleteUser_def updateUser_def JSON_def Let_def
        ParseUint_1 ParseUint_2)

theorem identities_increase_until_wrap_witness:
  "run history (init :: 64 uint state) = (fst (run history init), sample) \<and>
   createdUserIDs (fst (run history (init :: 64 uint state))) = [1, 2, 3] \<and>
   createdPostIDs (fst (run history (init :: 64 uint state))) = [1, 2] \<and>
   unat (userCounter (init :: 64 uint state)) +
     length (createdUserIDs (fst (run history (init :: 64 uint state)))) \<le> 2 ^ LENGTH(64) \<and>
   unat (postCounter (init :: 64 uint state)) +
     length (createdPostIDs (fst (run history (init :: 64 uint state)))) \<le> 2 ^ LENGTH(64) \<and>
   userCounter sample = userCounter (init :: 64 uint state) +
     of_nat (length (createdUserIDs (fst (run history (init :: 64 uint state))))) \<and>
   postCounter sample = postCounter (init :: 64 uint state) +
     of_nat (length (createdPostIDs (fst (run history (init :: 64 uint state))))) \<and>
   sorted_wrt (<) (createdUserIDs (fst (run history (init :: 64 uint state)))) \<and>
   distinct (createdUserIDs (fst (run history (init :: 64 uint state)))) \<and>
   sorted_wrt (<) (createdPostIDs (fst (run history (init :: 64 uint state)))) \<and>
   distinct (createdPostIDs (fst (run history (init :: 64 uint state))))"
proof -
  have r: "run history (init :: 64 uint state) = (fst (run history init), sample)"
    using run_history by (metis prod.collapse)
  have c: "unat (userCounter (init :: 64 uint state)) +
             length (createdUserIDs (fst (run history (init :: 64 uint state)))) \<le> 2 ^ LENGTH(64)"
          "unat (postCounter (init :: 64 uint state)) +
             length (createdPostIDs (fst (run history (init :: 64 uint state)))) \<le> 2 ^ LENGTH(64)"
    by (simp_all add: run_history_ids) (simp_all add: init_def)
  from identities_increase_until_wrap [OF r] c r run_history_ids
  show ?thesis by blast
qed

text \<open>
  Wearing the counter out. The client's decimal numerals are what the parser reads back,
  so on a 32-bit build each of its deletes removes the post it has just created.
\<close>

lemma decimal_value_snoc: "decimal_value (cs @ [c]) = decimal_value cs * 10 + digit_nat c"
  by (simp add: decimal_value_def)

lemma digit_char:
  assumes "d < 10"
  shows "is_digit (char_of (of_char (CHR ''0'') + d))"
    and "digit_nat (char_of (of_char (CHR ''0'') + d)) = d"
  using assms by (simp_all add: is_digit_def digit_nat_def)

lemma decimal_digits:
  "decimal n \<noteq> [] \<and> list_all is_digit (decimal n) \<and> decimal_value (decimal n) = n"
proof (induction n rule: decimal.induct)
  case (1 n)
  show ?case
  proof (cases "n < 10")
    case True
    then have "decimal n = [char_of (of_char (CHR ''0'') + n)]" by simp
    with digit_char [OF True] show ?thesis
      by (simp add: decimal_value_def del: decimal.simps)
  next
    case False
    then have d: "decimal n = decimal (n div 10) @ [char_of (of_char (CHR ''0'') + n mod 10)]"
      by simp
    have m: "n mod 10 < 10" by simp
    from "1.IH" [OF False] show ?thesis
      unfolding d using digit_char [OF m]
      by (simp add: decimal_value_snoc del: decimal.simps)
  qed
qed

lemma ParseUint_decimal:
  assumes "n < 2 ^ 32"
  shows "ParseUint (decimal n) = Inr (of_nat n)"
proof -
  have "unat (of_nat n :: uint64) = n" using assms by (simp add: unat_of_nat)
  with assms decimal_digits [of n] show ?thesis
    by (simp add: ParseUint_iff is_uint32_decimal_def)
qed

lemma run_append:
  "run (xs @ ys) s =
     (let (rs, s1) = run xs s; (rs', s2) = run ys s1 in (rs @ rs', s2))"
  by (induction xs arbitrary: s) (auto split: prod.splits)

text \<open>One cycle: the post gets the counter's value, and is gone again at the end.\<close>

lemma run_cycle:
  fixes s :: "32 uint state"
  assumes "posts s = []" and "postCounter s = of_nat i" and "i < 2 ^ 32"
  shows "\<exists>rs. run (cycle i) s = (rs, s\<lparr>postCounter := of_nat (Suc i)\<rparr>) \<and>
              createdPostIDs rs = [of_nat i]"
proof -
  have "ucast (of_nat i :: uint64) = (of_nat i :: 32 word)"
    using assms(3) by (simp add: unsigned_of_nat take_bit_nat_eq_self)
  then show ?thesis using assms
    by (simp add: cycle_def aPost_def createPost_def deletePost_def ParseUint_decimal
                  JSON_def Let_def del: decimal.simps)
qed

lemma run_cycles:
  fixes s :: "32 uint state"
  assumes "posts s = []" and "postCounter s = of_nat a" and "a \<le> b" and "b \<le> 2 ^ 32"
  shows "\<exists>rs. run (concat (map cycle [a..<b])) s = (rs, s\<lparr>postCounter := of_nat b\<rparr>) \<and>
              createdPostIDs rs = map of_nat [a..<b]"
  using assms(3,4)
proof (induction b)
  case 0
  with assms(1,2) show ?case by simp
next
  case (Suc b)
  show ?case
  proof (cases "a = Suc b")
    case True
    with assms(2) show ?thesis by simp
  next
    case False
    with Suc.prems have ab: "a \<le> b" and b: "b < 2 ^ 32" by simp_all
    from Suc.IH ab b obtain rs
      where rs: "run (concat (map cycle [a..<b])) s = (rs, s\<lparr>postCounter := of_nat b\<rparr>)"
        and ids: "createdPostIDs rs = map of_nat [a..<b]"
      by auto
    have "posts (s\<lparr>postCounter := of_nat b\<rparr>) = []"
         "postCounter (s\<lparr>postCounter := of_nat b\<rparr>) = of_nat b"
      using assms(1) by simp_all
    from run_cycle [OF this b] obtain rs'
      where rs': "run (cycle b) (s\<lparr>postCounter := of_nat b\<rparr>) =
                    (rs', s\<lparr>postCounter := of_nat (Suc b)\<rparr>)"
        and ids': "createdPostIDs rs' = [of_nat b]"
      by auto
    have "concat (map cycle [a..<Suc b]) = concat (map cycle [a..<b]) @ cycle b"
      using ab by simp
    then have "run (concat (map cycle [a..<Suc b])) s =
                 (rs @ rs', s\<lparr>postCounter := of_nat (Suc b)\<rparr>)"
      using rs rs' by (simp add: run_append)
    moreover have "createdPostIDs (rs @ rs') = map of_nat [a..<Suc b]"
      using ids ids' ab by (simp add: createdPostIDs_append)
    ultimately show ?thesis by blast
  qed
qed

lemma wearOut_ids:
  assumes "1 \<le> n" and "n \<le> 2 ^ 32"
  shows "createdPostIDs (fst (run (wearOut n) (init :: 32 uint state))) =
           map of_nat [1..<n] @ [of_nat n, of_nat n + 1]"
proof -
  have "posts (init :: 32 uint state) = []" "postCounter (init :: 32 uint state) = of_nat 1"
    by (simp_all add: init_def)
  from run_cycles [OF this assms] obtain rs
    where rs: "run (concat (map cycle [1..<n])) (init :: 32 uint state) =
                 (rs, init\<lparr>postCounter := of_nat n\<rparr>)"
      and ids: "createdPostIDs rs = map of_nat [1..<n]"
    by auto
  obtain rs' s' where two: "run [(0, POST_posts aPost), (0, POST_posts aPost)]
           ((init :: 32 uint state)\<lparr>postCounter := of_nat n\<rparr>) = (rs', s')"
    by (cases "run [(0, POST_posts aPost), (0, POST_posts aPost)]
           ((init :: 32 uint state)\<lparr>postCounter := of_nat n\<rparr>)")
  then have ids': "createdPostIDs rs' = [of_nat n, of_nat n + 1]"
    by (auto simp: aPost_def createPost_def JSON_def Let_def)
  have "run (wearOut n) (init :: 32 uint state) = (rs @ rs', s')"
    unfolding wearOut_def using rs two by (simp add: run_append)
  then show ?thesis using ids ids' by (simp add: createdPostIDs_append)
qed

lemma wrapped_ids_repeat:
  assumes "2 \<le> n" and "of_nat n = (0 :: 'w::len word)"
  shows "\<not> sorted_wrt (<) (map of_nat [1..<n] @ [of_nat n, of_nat n + 1 :: 'w word])"
    and "\<not> distinct (map of_nat [1..<n] @ [of_nat n, of_nat n + 1 :: 'w word])"
proof -
  have 1: "(1 :: 'w word) \<in> set (map of_nat [1..<n])"
  proof -
    have "(1::nat) \<in> set [1..<n]" using assms(1) by simp
    then have "of_nat 1 \<in> of_nat ` set [1..<n]" by (rule imageI)
    then show ?thesis by simp
  qed
  show "\<not> distinct (map of_nat [1..<n] @ [of_nat n, of_nat n + 1 :: 'w word])"
    using 1 assms(2) by (simp del: set_map map_map)
  show "\<not> sorted_wrt (<) (map of_nat [1..<n] @ [of_nat n, of_nat n + 1 :: 'w word])"
  proof
    assume "sorted_wrt (<) (map of_nat [1..<n] @ [of_nat n, of_nat n + 1 :: 'w word])"
    then have "\<forall>x \<in> set (map of_nat [1..<n]). x < (of_nat n :: 'w word)"
      by (simp add: sorted_wrt_append del: set_map)
    with 1 have "(1 :: 'w word) < of_nat n" by blast
    with assms(2) show False by simp
  qed
qed

text \<open>
  Claim C1 as stated fails on a 32-bit build. The client creates and deletes the posts
  1 to \<open>2 ^ 32 - 1\<close>; the counter is then back at 0, and the next two creates return
  0, which is not above \<open>2 ^ 32 - 1\<close>, and 1, which the first create had returned.
\<close>

theorem wearOut_reissues:
  "\<not> sorted_wrt (<) (createdPostIDs (fst (run (wearOut (2 ^ 32)) (init :: 32 uint state)))) \<and>
   \<not> distinct (createdPostIDs (fst (run (wearOut (2 ^ 32)) (init :: 32 uint state))))"
proof -
  have n: "(1::nat) \<le> 2 ^ 32" "(2 ^ 32 :: nat) \<le> 2 ^ 32" "(2::nat) \<le> 2 ^ 32" by simp_all
  have z: "of_nat (2 ^ 32) = (0 :: 32 word)" by simp
  show ?thesis
    unfolding wearOut_ids [OF n(1,2)]
    using wrapped_ids_repeat [OF n(3) z] by blast
qed

subsection \<open>Creating a user\<close>

text \<open>
  Claim C2. Whenever some user of the collection has the requested username or the
  requested email (compared as strings, byte for byte), \<^verbatim>\<open>createUser\<close> answers 409 and
  leaves the whole state, the collection and the counter with it, as it was. A clash on
  one field is enough.
\<close>

theorem createUser_conflict:
  assumes "\<exists>u \<in> set (users s). Username u = req_Username req \<or> Email u = req_Email req"
  shows "createUser (Inr req) s = (JSON StatusConflict (ErrorBody ''User already exists''), s)"
  using assms by (simp add: createUser_def userExists_iff)

text \<open>An email clash alone: a new name with bob's address, against the sample state.\<close>

theorem createUser_conflict_witness:
  "(\<exists>u \<in> set (users sample).
      Username u = req_Username \<lparr>req_Username = ''bobby'', req_Email = ''b@x.com''\<rparr> \<or>
      Email u = req_Email \<lparr>req_Username = ''bobby'', req_Email = ''b@x.com''\<rparr>) \<and>
   createUser (Inr \<lparr>req_Username = ''bobby'', req_Email = ''b@x.com''\<rparr>) sample =
     (JSON StatusConflict (ErrorBody ''User already exists''), sample)"
  using createUser_conflict [of sample "\<lparr>req_Username = ''bobby'', req_Email = ''b@x.com''\<rparr>"]
  by (simp add: sample_def)

text \<open>
  Claim C3 does not hold of the code: \<^verbatim>\<open>createUser\<close> never reads the clock, and the
  struct literal it builds leaves \<^verbatim>\<open>CreatedAt\<close> and \<^verbatim>\<open>UpdatedAt\<close> at the zero value of
  \<^verbatim>\<open>time.Time\<close>. Here the first user is created at the instant 1700000000: the user
  returned and stored carries the zero time in both fields.
\<close>

theorem createUser_timestamps_zero:
  "handle 1700000000 (POST_users (Inr aliceReq)) (init :: 64 uint state) =
     (JSON StatusCreated
        (UserBody \<lparr>User.ID = 1, Username = ''alice'', Email = ''a@x.com'',
                    User.CreatedAt = zeroTime, User.UpdatedAt = zeroTime\<rparr>),
      \<lparr>users = [\<lparr>User.ID = 1, Username = ''alice'', Email = ''a@x.com'',
                   User.CreatedAt = zeroTime, User.UpdatedAt = zeroTime\<rparr>],
       posts = [], userCounter = 2, postCounter = 1\<rparr>) \<and>
   zeroTime \<noteq> 1700000000"
  by (simp add: createUser_def init_def aliceReq_def JSON_def zeroTime_def Let_def)

subsection \<open>Creating a post\<close>

text \<open>
  Claim C4. \<^verbatim>\<open>createPost\<close> with a bound body always answers 201 with a post whose
  \<^verbatim>\<open>AuthorID\<close> is 1 when there is no user, and the identity of the first user of the
  list otherwise, however many users follow; the request has no field for an author.
  The post is appended and the post counter moves on. Whatever the body, the answer is
  never 409.
\<close>

theorem createPost_author:
  "\<exists>p. createPost (Inr req) s =
          (JSON StatusCreated (PostBody p),
           s\<lparr>posts := posts s @ [p], postCounter := postCounter s + 1\<rparr>) \<and>
        Post.ID p = postCounter s \<and> Title p = req_Title req \<and> Content p = req_Content req \<and>
        AuthorID p = (case users s of [] \<Rightarrow> 1 | user # rest \<Rightarrow> User.ID user) \<and>
        (users s = [] \<longrightarrow> AuthorID p = 1) \<and>
        (users s \<noteq> [] \<longrightarrow> AuthorID p = User.ID (hd (users s))) \<and>
        status (fst (createPost bound s)) \<noteq> StatusConflict"
  by (cases bound; cases "users s") (simp_all add: createPost_def JSON_def Let_def)

text \<open>
  With no user, the author is 1; in the sample state, whose first user is bob with the
  identity 2, the author is 2.
\<close>

theorem createPost_author_witness:
  "users (init :: 64 uint state) = [] \<and>
   users sample \<noteq> [] \<and> User.ID (hd (users sample)) = 2 \<and>
   (\<exists>p. createPost (Inr postReq) (init :: 64 uint state) =
           (JSON StatusCreated (PostBody p),
            init\<lparr>posts := posts init @ [p], postCounter := postCounter init + 1\<rparr>) \<and>
         AuthorID p = 1) \<and>
   (\<exists>p. createPost (Inr postReq) sample =
           (JSON StatusCreated (PostBody p),
            sample\<lparr>posts := posts sample @ [p], postCounter := postCounter sample + 1\<rparr>) \<and>
         AuthorID p = 2)"
proof -
  have e: "users (init :: 64 uint state) = []" by (simp add: init_def)
  have n: "users sample \<noteq> []" "User.ID (hd (users sample)) = 2" by (simp_all add: sample_def)
  from createPost_author [of postReq "init :: 64 uint state" "Inr postReq"] e
  have 1: "\<exists>p. createPost (Inr postReq) (init :: 64 uint state) =
           (JSON StatusCreated (PostBody p),
            init\<lparr>posts := posts init @ [p], postCounter := postCounter init + 1\<rparr>) \<and>
         AuthorID p = 1"
    by blast
  from createPost_author [of postReq sample "Inr postReq"] n
  have 2: "\<exists>p. createPost (Inr postReq) sample =
           (JSON StatusCreated (PostBody p),
            sample\<lparr>posts := posts sample @ [p], postCounter := postCounter sample + 1\<rparr>) \<and>
         AuthorID p = 2"
    by force
  from e n 1 2 show ?thesis by blast
qed

subsection \<open>Updating a user\<close>

text \<open>
  Claim C5. When the id parameter is a numeral and no user has that id,
  \<^verbatim>\<open>updateUser\<close> answers 404 and the state after it is the state before it: the
  collection, every field of every user in it, and the counter. For such an id no
  answer of \<^verbatim>\<open>updateUser\<close> changes the state, whatever the body.
\<close>

theorem updateUser_absent:
  assumes "ParseUint param = Inr i" and "ucast i \<notin> User.ID ` set (users s)"
  shows "updateUser now param (Inr req) s =
           (JSON StatusNotFound (ErrorBody ''User not found''), s) \<and>
         snd (updateUser now param bound s) = s"
  using assms
  by (cases bound) (simp_all add: updateUser_def indexUser_None_iff [symmetric])

theorem updateUser_absent_witness:
  "ParseUint ''7'' = Inr 7 \<and> ucast (7 :: uint64) \<notin> User.ID ` set (users sample) \<and>
   updateUser 500 ''7'' (Inr aliceReq) sample =
     (JSON StatusNotFound (ErrorBody ''User not found''), sample) \<and>
   snd (updateUser 500 ''7'' (Inl ''EOF'') sample) = sample"
  using updateUser_absent [of "''7''" 7 sample 500 aliceReq "Inl ''EOF''"]
  by (simp add: ParseUint_7 sample_def)

text \<open>The answer of \<^verbatim>\<open>updateUser\<close> to a bound request for a user that exists.\<close>

lemma updateUser_status:
  assumes "ParseUint param = Inr i" and "indexUser (users s) (ucast i) = Some k"
  shows "status (fst (updateUser now param (Inr req) s)) =
           (if \<exists>u \<in> set (users s). User.ID u \<noteq> ucast i \<and>
                 (Username u = req_Username req \<or> Email u = req_Email req)
            then StatusConflict else StatusOK)"
proof -
  from indexUser_Some [OF assms(2)] have "User.ID (users s ! k) = ucast i" by simp
  then show ?thesis using assms
    by (simp add: updateUser_def conflictsWithOther_iff JSON_def Let_def)
qed

lemma noClash_init: "noClashAcrossIDs init"
  by (simp add: noClashAcrossIDs_def init_def)

lemma noClashD:
  assumes "noClashAcrossIDs s" and "u \<in> set (users s)" and "v \<in> set (users s)"
    and "Username u = Username v \<or> Email u = Email v"
  shows "User.ID u = User.ID v"
proof -
  from assms(1) [unfolded noClashAcrossIDs_def] assms(2)
  have "\<forall>v \<in> set (users s).
          Username u = Username v \<or> Email u = Email v \<longrightarrow> User.ID u = User.ID v"
    by (rule bspec)
  from this assms(3)
  have "Username u = Username v \<or> Email u = Email v \<longrightarrow> User.ID u = User.ID v"
    by (rule bspec)
  with assms(4) show ?thesis by (rule rev_mp)
qed

lemma uniqueUsers_noClash:
  assumes "uniqueUsers s"
  shows "noClashAcrossIDs s"
proof -
  have "inj_on Username (set (users s))" "inj_on Email (set (users s))"
    using assms by (simp_all add: uniqueUsers_def distinct_map)
  then show ?thesis
    unfolding noClashAcrossIDs_def by (auto dest: inj_onD)
qed

text \<open>
  The invariant survives taking users away, and putting in a user \<open>n\<close> that clashes
  with users of its own identity only.
\<close>

lemma noClash_insert:
  assumes inv: "noClashAcrossIDs s"
    and sub: "set (users s') \<subseteq> insert n (set (users s))"
    and new: "\<forall>x \<in> set (users s). User.ID x = User.ID n \<or>
                (Username x \<noteq> Username n \<and> Email x \<noteq> Email n)"
  shows "noClashAcrossIDs s'"
  unfolding noClashAcrossIDs_def
proof (intro ballI impI)
  fix a b
  assume a: "a \<in> set (users s')" and b: "b \<in> set (users s')"
    and sh: "Username a = Username b \<or> Email a = Email b"
  from a sub have a': "a = n \<or> a \<in> set (users s)" by blast
  from b sub have b': "b = n \<or> b \<in> set (users s)" by blast
  show "User.ID a = User.ID b"
  proof (cases "a = n")
    case an: True
    show ?thesis
    proof (cases "b = n")
      case True
      with an show ?thesis by simp
    next
      case False
      with b' have "b \<in> set (users s)" by simp
      with new have "User.ID b = User.ID n \<or> (Username b \<noteq> Username n \<and> Email b \<noteq> Email n)"
        by blast
      with sh an show ?thesis by auto
    qed
  next
    case False
    with a' have as: "a \<in> set (users s)" by simp
    show ?thesis
    proof (cases "b = n")
      case True
      from as new have "User.ID a = User.ID n \<or> (Username a \<noteq> Username n \<and> Email a \<noteq> Email n)"
        by blast
      with sh True show ?thesis by auto
    next
      case False
      with b' have "b \<in> set (users s)" by simp
      with as sh inv show ?thesis unfolding noClashAcrossIDs_def by blast
    qed
  qed
qed

lemma noClash_subset:
  assumes "noClashAcrossIDs s" and "set (users s') \<subseteq> set (users s)"
  shows "noClashAcrossIDs s'"
  using assms unfolding noClashAcrossIDs_def by (simp add: subset_iff)

lemma noClash_createUser:
  assumes "noClashAcrossIDs s"
  shows "noClashAcrossIDs (snd (createUser bound s))"
proof (cases bound)
  case (Inl err)
  with assms show ?thesis by (simp add: createUser_def)
next
  case (Inr req)
  show ?thesis
  proof (cases "userExists (users s) req")
    case True
    with Inr assms show ?thesis by (simp add: createUser_def)
  next
    case False
    define n :: "'a uint User" where
      "n = \<lparr>User.ID = userCounter s, Username = req_Username req, Email = req_Email req,
             User.CreatedAt = zeroTime, User.UpdatedAt = zeroTime\<rparr>"
    have s': "snd (createUser bound s) =
                s\<lparr>users := users s @ [n], userCounter := userCounter s + 1\<rparr>"
      using Inr False by (simp add: createUser_def Let_def n_def)
    have sub: "set (users (snd (createUser bound s))) \<subseteq> insert n (set (users s))"
      by (simp add: s')
    have new: "\<forall>x \<in> set (users s). User.ID x = User.ID n \<or>
                (Username x \<noteq> Username n \<and> Email x \<noteq> Email n)"
      using False by (simp add: userExists_iff n_def)
    from assms sub new show ?thesis by (rule noClash_insert)
  qed
qed

lemma noClash_deleteUser:
  assumes "noClashAcrossIDs s"
  shows "noClashAcrossIDs (snd (deleteUser param s))"
proof -
  have "set (take k (users s) @ drop (k + 1) (users s)) \<subseteq> set (users s)" for k
    using set_take_subset [of k "users s"] set_drop_subset [of "k + 1" "users s"] by simp
  then have "set (users (snd (deleteUser param s))) \<subseteq> set (users s)"
    by (simp add: deleteUser_def split: sum.split option.split)
  with assms show ?thesis by (rule noClash_subset)
qed

lemma noClash_updateUser:
  assumes "noClashAcrossIDs s"
  shows "noClashAcrossIDs (snd (updateUser now param bound s))"
proof (cases "\<exists>i req k. ParseUint param = Inr i \<and> bound = Inr req \<and>
                indexUser (users s) (ucast i) = Some k \<and>
                \<not> conflictsWithOther (users s) (User.ID (users s ! k)) req")
  case False
  then have "snd (updateUser now param bound s) = s"
    by (auto simp: updateUser_def Let_def split: sum.split option.split)
  with assms show ?thesis by simp
next
  case True
  then obtain i req k where p: "ParseUint param = Inr i" and body: "bound = Inr req"
    and idx: "indexUser (users s) (ucast i) = Some k"
    and free: "\<not> conflictsWithOther (users s) (User.ID (users s ! k)) req"
    by blast
  define n where "n = (users s ! k)\<lparr>Username := req_Username req,
                         Email := req_Email req, User.UpdatedAt := now\<rparr>"
  have s': "snd (updateUser now param bound s) = s\<lparr>users := (users s)[k := n]\<rparr>"
    using p body idx free by (simp add: updateUser_def Let_def n_def)
  have sub: "set (users (snd (updateUser now param bound s))) \<subseteq> insert n (set (users s))"
    unfolding s' using set_update_subset_insert [of "users s" k n] by simp
  have new: "\<forall>x \<in> set (users s). User.ID x = User.ID n \<or>
                (Username x \<noteq> Username n \<and> Email x \<noteq> Email n)"
    using free by (auto simp: conflictsWithOther_iff n_def)
  from assms sub new show ?thesis by (rule noClash_insert)
qed

lemma noClash_handle:
  assumes "noClashAcrossIDs s"
  shows "noClashAcrossIDs (snd (handle now rq s))"
proof (cases "is_user_request rq")
  case True
  then show ?thesis
    using assms
    by (cases rq)
       (simp_all add: noClash_createUser noClash_updateUser noClash_deleteUser
                      getUsers_def getUser_def split: sum.split option.split)
next
  case False
  then have "users (snd (handle now rq s)) = users s"
    by (cases rq)
       (simp_all add: getPosts_def createPost_def getPost_def updatePost_def deletePost_def
                      Let_def split: sum.split option.split)
  then have "set (users (snd (handle now rq s))) \<subseteq> set (users s)" by simp
  with assms show ?thesis by (rule noClash_subset)
qed

text \<open>So it holds in every state that a run reaches from the initial state.\<close>

lemma noClash_run:
  "noClashAcrossIDs s \<Longrightarrow> noClashAcrossIDs (snd (run reqs s))"
proof (induction reqs arbitrary: s)
  case Nil
  then show ?case by simp
next
  case (Cons a reqs)
  obtain now rq where a: "a = (now, rq)" by (cases a)
  from Cons.prems have "noClashAcrossIDs (snd (handle now rq s))" by (rule noClash_handle)
  from Cons.IH [OF this] show ?case
    by (simp add: a case_prod_beta)
qed

lemma noClash_reachable: "noClashAcrossIDs (snd (run reqs init))"
  using noClash_init by (rule noClash_run)

text \<open>
  Claim C6. Let the id parameter be a numeral, the body be bound, and \<open>target\<close> be the
  user that \<^verbatim>\<open>getUser\<close> finds for the id. Then \<^verbatim>\<open>updateUser\<close> answers 409 exactly when a
  user with another id than the target's has the requested username or the requested
  email, and 200 otherwise: users with the target's id are left out of the check. So
  updating a user to its own current username and email succeeds, in every state that
  some run reaches from the initial state, and in every state whose collection is
  unique in usernames and emails.
\<close>

theorem updateUser_conflict_only_others:
  assumes "ParseUint param = Inr i" and "findUser (users s) (ucast i) = Some target"
  shows "(status (fst (updateUser now param (Inr req) s)) = StatusConflict \<longleftrightarrow>
           (\<exists>u \<in> set (users s). User.ID u \<noteq> ucast i \<and>
               (Username u = req_Username req \<or> Email u = req_Email req))) \<and>
         (status (fst (updateUser now param (Inr req) s)) = StatusOK \<longleftrightarrow>
           \<not> (\<exists>u \<in> set (users s). User.ID u \<noteq> ucast i \<and>
               (Username u = req_Username req \<or> Email u = req_Email req))) \<and>
         (s = snd (run reqs init) \<or> uniqueUsers s \<longrightarrow>
            status (fst (updateUser now param
              (Inr \<lparr>req_Username = Username target, req_Email = Email target\<rparr>) s))
              = StatusOK)"
proof (intro conjI impI)
  from assms(2) obtain k where idx: "indexUser (users s) (ucast i) = Some k"
    and target: "target = users s ! k"
    by (auto simp: findUser_indexUser)
  have id: "User.ID target = ucast i" and mem: "target \<in> set (users s)"
    using indexUser_Some [OF idx] target by simp_all
  show "status (fst (updateUser now param (Inr req) s)) = StatusConflict \<longleftrightarrow>
           (\<exists>u \<in> set (users s). User.ID u \<noteq> ucast i \<and>
               (Username u = req_Username req \<or> Email u = req_Email req))"
    by (simp add: updateUser_status [OF assms(1) idx])
  show "status (fst (updateUser now param (Inr req) s)) = StatusOK \<longleftrightarrow>
           \<not> (\<exists>u \<in> set (users s). User.ID u \<noteq> ucast i \<and>
               (Username u = req_Username req \<or> Email u = req_Email req))"
    by (simp add: updateUser_status [OF assms(1) idx])
  assume "s = snd (run reqs init) \<or> uniqueUsers s"
  then have "noClashAcrossIDs s"
  proof
    assume "s = snd (run reqs init)"
    then show ?thesis by (simp add: noClash_reachable)
  next
    assume "uniqueUsers s"
    then show ?thesis by (rule uniqueUsers_noClash)
  qed
  then have same: "User.ID u = ucast i"
    if "u \<in> set (users s)" "Username u = Username target \<or> Email u = Email target" for u
    using noClashD [OF _ that(1) mem that(2)] id by simp
  have "\<not> (\<exists>u \<in> set (users s). User.ID u \<noteq> ucast i \<and>
            (Username u = Username target \<or> Email u = Email target))"
  proof
    assume "\<exists>u \<in> set (users s). User.ID u \<noteq> ucast i \<and>
            (Username u = Username target \<or> Email u = Email target)"
    then obtain u where "u \<in> set (users s)" "User.ID u \<noteq> ucast i"
      "Username u = Username target \<or> Email u = Email target" by blast
    with same show False by blast
  qed
  then show "status (fst (updateUser now param
              (Inr \<lparr>req_Username = Username target, req_Email = Email target\<rparr>) s))
              = StatusOK"
    by (simp add: updateUser_status [OF assms(1) idx])
qed

text \<open>
  In the sample state, which the sample history reaches, for bob (id 2): his own name
  and address are accepted, his own name with carol's address is refused.
\<close>

theorem updateUser_conflict_only_others_witness:
  "ParseUint ''2'' = Inr 2 \<and>
   findUser (users sample) (ucast (2 :: uint64)) =
     Some \<lparr>User.ID = 2, Username = ''bob'', Email = ''b@x.com'',
            User.CreatedAt = zeroTime, User.UpdatedAt = 100\<rparr> \<and>
   (sample = snd (run history init) \<or> uniqueUsers sample) \<and>
   status (fst (updateUser 500 ''2'' (Inr \<lparr>req_Username = ''bob'', req_Email = ''b@x.com''\<rparr>) sample))
     = StatusOK \<and>
   (\<exists>u \<in> set (users sample). User.ID u \<noteq> ucast (2 :: uint64) \<and>
       (Username u = req_Username \<lparr>req_Username = ''bob'', req_Email = ''c@x.com''\<rparr> \<or>
        Email u = req_Email \<lparr>req_Username = ''bob'', req_Email = ''c@x.com''\<rparr>)) \<and>
   status (fst (updateUser 500 ''2'' (Inr \<lparr>req_Username = ''bob'', req_Email = ''c@x.com''\<rparr>) sample))
     = StatusConflict"
proof -
  have p: "ParseUint ''2'' = Inr 2" by (rule ParseUint_2)
  have f: "findUser (users sample) (ucast (2 :: uint64)) =
     Some \<lparr>User.ID = 2, Username = ''bob'', Email = ''b@x.com'',
            User.CreatedAt = zeroTime, User.UpdatedAt = 100\<rparr>"
    by (simp add: sample_def)
  have r: "sample = snd (run history init) \<or> uniqueUsers sample"
    by (simp add: run_history)
  have c: "\<exists>u \<in> set (users sample). User.ID u \<noteq> ucast (2 :: uint64) \<and>
       (Username u = req_Username \<lparr>req_Username = ''bob'', req_Email = ''c@x.com''\<rparr> \<or>
        Email u = req_Email \<lparr>req_Username = ''bob'', req_Email = ''c@x.com''\<rparr>)"
    by (simp add: sample_def)
  from updateUser_conflict_only_others
         [OF p f, of 500 "\<lparr>req_Username = ''bob'', req_Email = ''c@x.com''\<rparr>" history]
    r c p f
  show ?thesis by simp
qed

text \<open>
  Claim C7, as amended. After an update that answered 200, \<^verbatim>\<open>getUser\<close> with the same
  id parameter returns the user the update returned: it carries the new username and the
  new email, its identity and its \<^verbatim>\<open>CreatedAt\<close> are those \<^verbatim>\<open>getUser\<close> returned before
  the update, and its \<^verbatim>\<open>UpdatedAt\<close> is the value \<^verbatim>\<open>time.Now()\<close> had in the update. So
  \<^verbatim>\<open>UpdatedAt\<close> is strictly later than before exactly when that reading of the clock is
  strictly later than the value stored before.
\<close>

theorem updateUser_then_getUser:
  fixes s :: "'w::len uint state"
  assumes "updateUser now param (Inr req) s = (r, s')" and "status r = StatusOK"
  shows "\<exists>u u'. getUser param s = (JSON StatusOK (UserBody u), s) \<and>
                getUser param s' = (JSON StatusOK (UserBody u'), s') \<and>
                r = JSON StatusOK (UserBody u') \<and>
                Username u' = req_Username req \<and> Email u' = req_Email req \<and>
                User.ID u' = User.ID u \<and>
                User.CreatedAt u' = User.CreatedAt u \<and>
                User.UpdatedAt u' = now \<and>
                (User.UpdatedAt u < User.UpdatedAt u' \<longleftrightarrow> User.UpdatedAt u < now)"
proof (cases "ParseUint param")
  case (Inl e)
  with assms show ?thesis by (auto simp: updateUser_def JSON_def)
next
  case (Inr i)
  show ?thesis
  proof (cases "indexUser (users s) (ucast i)")
    case None
    with Inr assms show ?thesis by (auto simp: updateUser_def JSON_def)
  next
    case (Some k)
    define u where "u = users s ! k"
    define u' where "u' = u\<lparr>Username := req_Username req, Email := req_Email req,
                             User.UpdatedAt := now\<rparr>"
    have k: "k < length (users s)" using indexUser_Some [OF Some] by simp
    have noconf: "\<not> conflictsWithOther (users s) (User.ID u) req"
      using assms Inr Some by (auto simp: updateUser_def JSON_def u_def Let_def split: if_splits)
    with assms(1) Inr Some
    have s': "s' = s\<lparr>users := (users s)[k := u']\<rparr>"
      and r: "r = JSON StatusOK (UserBody ((users s)[k := u'] ! k))"
      by (auto simp: updateUser_def Let_def u_def u'_def)
    have nth: "(users s)[k := u'] ! k = u'" using k by simp
    have "map User.ID ((users s)[k := u']) = map User.ID (users s)"
      unfolding u'_def u_def using k by (rule IDs_after_update)
    then have idx: "indexUser ((users s)[k := u']) (ucast i) = Some k"
      using Some indexUser_same_IDs by metis
    have before: "getUser param s = (JSON StatusOK (UserBody u), s)"
      using Inr Some by (simp add: getUser_def findUser_indexUser u_def)
    have after: "getUser param s' = (JSON StatusOK (UserBody u'), s')"
      using Inr idx nth by (simp add: getUser_def findUser_indexUser s')
    show ?thesis
      apply (rule exI [of _ u], rule exI [of _ u'])
      using before after r nth by (simp add: u'_def)
  qed
qed

text \<open>
  In the sample state bob (id 2) was last updated at 100. An update at 500 that renames
  him: the read after it shows the new name, the old \<^verbatim>\<open>CreatedAt\<close> and 500.
\<close>

lemma updateUser_sample:
  "updateUser 500 ''2'' (Inr \<lparr>req_Username = ''robert'', req_Email = ''r@x.com''\<rparr>) sample =
     (JSON StatusOK (UserBody \<lparr>User.ID = 2, Username = ''robert'', Email = ''r@x.com'',
                               User.CreatedAt = zeroTime, User.UpdatedAt = 500\<rparr>),
      sample\<lparr>users := [\<lparr>User.ID = 2, Username = ''robert'', Email = ''r@x.com'',
                          User.CreatedAt = zeroTime, User.UpdatedAt = 500\<rparr>,
                         \<lparr>User.ID = 3, Username = ''carol'', Email = ''c@x.com'',
                          User.CreatedAt = zeroTime, User.UpdatedAt = zeroTime\<rparr>]\<rparr>)"
  by (simp add: updateUser_def ParseUint_2 sample_def JSON_def Let_def)

theorem updateUser_then_getUser_witness:
  "updateUser 500 ''2'' (Inr \<lparr>req_Username = ''robert'', req_Email = ''r@x.com''\<rparr>) sample =
     (JSON StatusOK (UserBody \<lparr>User.ID = 2, Username = ''robert'', Email = ''r@x.com'',
                               User.CreatedAt = zeroTime, User.UpdatedAt = 500\<rparr>),
      sample\<lparr>users := [\<lparr>User.ID = 2, Username = ''robert'', Email = ''r@x.com'',
                          User.CreatedAt = zeroTime, User.UpdatedAt = 500\<rparr>,
                         \<lparr>User.ID = 3, Username = ''carol'', Email = ''c@x.com'',
                          User.CreatedAt = zeroTime, User.UpdatedAt = zeroTime\<rparr>]\<rparr>) \<and>
   status (JSON StatusOK (UserBody \<lparr>User.ID = 2 :: 64 uint, Username = ''robert'',
             Email = ''r@x.com'', User.CreatedAt = zeroTime, User.UpdatedAt = 500\<rparr>)) = StatusOK \<and>
   (\<exists>u u'. getUser ''2'' sample = (JSON StatusOK (UserBody u), sample) \<and>
        getUser ''2''
          (sample\<lparr>users := [\<lparr>User.ID = 2, Username = ''robert'', Email = ''r@x.com'',
                          User.CreatedAt = zeroTime, User.UpdatedAt = 500\<rparr>,
                         \<lparr>User.ID = 3, Username = ''carol'', Email = ''c@x.com'',
                          User.CreatedAt = zeroTime, User.UpdatedAt = zeroTime\<rparr>]\<rparr>) =
          (JSON StatusOK (UserBody u'),
           sample\<lparr>users := [\<lparr>User.ID = 2, Username = ''robert'', Email = ''r@x.com'',
                          User.CreatedAt = zeroTime, User.UpdatedAt = 500\<rparr>,
                         \<lparr>User.ID = 3, Username = ''carol'', Email = ''c@x.com'',
                          User.CreatedAt = zeroTime, User.UpdatedAt = zeroTime\<rparr>]\<rparr>) \<and>
        Username u' = ''robert'' \<and> Email u' = ''r@x.com'' \<and>
        User.ID u' = User.ID u \<and> User.CreatedAt u' = User.CreatedAt u \<and>
        User.UpdatedAt u' = 500)"
proof -
  have st: "status (JSON StatusOK (UserBody \<lparr>User.ID = 2 :: 64 uint, Username = ''robert'',
             Email = ''r@x.com'', User.CreatedAt = zeroTime, User.UpdatedAt = 500\<rparr>)) = StatusOK"
    by (simp add: JSON_def)
  from updateUser_then_getUser [OF updateUser_sample st] obtain u u'
    where "getUser ''2'' sample = (JSON StatusOK (UserBody u), sample)"
      and "getUser ''2''
          (sample\<lparr>users := [\<lparr>User.ID = 2, Username = ''robert'', Email = ''r@x.com'',
                          User.CreatedAt = zeroTime, User.UpdatedAt = 500\<rparr>,
                         \<lparr>User.ID = 3, Username = ''carol'', Email = ''c@x.com'',
                          User.CreatedAt = zeroTime, User.UpdatedAt = zeroTime\<rparr>]\<rparr>) =
          (JSON StatusOK (UserBody u'),
           sample\<lparr>users := [\<lparr>User.ID = 2, Username = ''robert'', Email = ''r@x.com'',
                          User.CreatedAt = zeroTime, User.UpdatedAt = 500\<rparr>,
                         \<lparr>User.ID = 3, Username = ''carol'', Email = ''c@x.com'',
                          User.CreatedAt = zeroTime, User.UpdatedAt = zeroTime\<rparr>]\<rparr>)"
      and "Username u' = ''robert''" and "Email u' = ''r@x.com''"
      and "User.ID u' = User.ID u" and "User.CreatedAt u' = User.CreatedAt u"
      and "User.UpdatedAt u' = 500"
    by auto
  with updateUser_sample st show ?thesis by blast
qed

text \<open>
  Claim C7 as stated fails where two updates read the same value from the clock: the
  code stores what \<^verbatim>\<open>time.Now()\<close> returns and does nothing to make it later than the
  value it replaces. In the run \<open>sameTick\<close> every request is answered 201 or 200; the
  read before the second update shows \<^verbatim>\<open>UpdatedAt\<close> 100, and the read after it shows
  100 again.
\<close>

theorem sameTick_not_later:
  "fst (run sameTick (init :: 64 uint state)) =
     [JSON StatusCreated (UserBody \<lparr>User.ID = 1, Username = ''alice'', Email = ''a@x.com'',
                                    User.CreatedAt = zeroTime, User.UpdatedAt = zeroTime\<rparr>),
      JSON StatusOK (UserBody \<lparr>User.ID = 1, Username = ''bob'', Email = ''b@x.com'',
                               User.CreatedAt = zeroTime, User.UpdatedAt = 100\<rparr>),
      JSON StatusOK (UserBody \<lparr>User.ID = 1, Username = ''bob'', Email = ''b@x.com'',
                               User.CreatedAt = zeroTime, User.UpdatedAt = 100\<rparr>),
      JSON StatusOK (UserBody \<lparr>User.ID = 1, Username = ''carol'', Email = ''c@x.com'',
                               User.CreatedAt = zeroTime, User.UpdatedAt = 100\<rparr>),
      JSON StatusOK (UserBody \<lparr>User.ID = 1, Username = ''carol'', Email = ''c@x.com'',
                               User.CreatedAt = zeroTime, User.UpdatedAt = 100\<rparr>)] \<and>
   \<not> User.UpdatedAt \<lparr>User.ID = 1 :: 64 uint, Username = ''bob'', Email = ''b@x.com'',
                       User.CreatedAt = zeroTime, User.UpdatedAt = 100\<rparr>
       < User.UpdatedAt \<lparr>User.ID = 1 :: 64 uint, Username = ''carol'', Email = ''c@x.com'',
                           User.CreatedAt = zeroTime, User.UpdatedAt = 100\<rparr>"
  by (simp add: sameTick_def init_def aliceReq_def bobReq_def carolReq_def
        createUser_def getUser_def updateUser_def JSON_def Let_def ParseUint_1)

subsection \<open>Updating a post\<close>

text \<open>
  Claim C8. An update of a post that answered 200 had a numeral \<open>i\<close> as id parameter
  and a bound body, and the post it changed is the target: the post at the first index
  \<open>k\<close> whose \<^verbatim>\<open>ID\<close> is \<open>i\<close>, which is the post \<^verbatim>\<open>getPost\<close> finds for the parameter.
  At that index the title and the content are the requested ones and \<^verbatim>\<open>UpdatedAt\<close> is
  the clock's reading; \<^verbatim>\<open>ID\<close>, \<^verbatim>\<open>AuthorID\<close>, \<^verbatim>\<open>Author\<close> and \<^verbatim>\<open>CreatedAt\<close> are as
  before. The collection keeps its length, every post at another index is unchanged, in
  particular every post with another id, and so are the users and both counters.
\<close>

theorem updatePost_frame:
  assumes "updatePost now param bound s = (r, s')" and "status r = StatusOK"
  shows "\<exists>i k req. ParseUint param = Inr i \<and> bound = Inr req \<and>
           indexPost (posts s) (ucast i) = Some k \<and>
           findPost (posts s) (ucast i) = Some (posts s ! k) \<and>
           k < length (posts s) \<and>
           Post.ID (posts s ! k) = ucast i \<and>
           (\<forall>j < k. Post.ID (posts s ! j) \<noteq> ucast i) \<and>
           indexPost (posts s) (Post.ID (posts s ! k)) = Some k \<and>
           posts s' = (posts s)[k := (posts s ! k)\<lparr>Title := req_Title req,
                                   Content := req_Content req, Post.UpdatedAt := now\<rparr>] \<and>
           r = JSON StatusOK (PostBody (posts s' ! k)) \<and>
           Title (posts s' ! k) = req_Title req \<and>
           Content (posts s' ! k) = req_Content req \<and>
           Post.UpdatedAt (posts s' ! k) = now \<and>
           Post.ID (posts s' ! k) = Post.ID (posts s ! k) \<and>
           AuthorID (posts s' ! k) = AuthorID (posts s ! k) \<and>
           Author (posts s' ! k) = Author (posts s ! k) \<and>
           Post.CreatedAt (posts s' ! k) = Post.CreatedAt (posts s ! k) \<and>
           length (posts s') = length (posts s) \<and>
           (\<forall>j < length (posts s). j \<noteq> k \<longrightarrow> posts s' ! j = posts s ! j) \<and>
           (\<forall>j < length (posts s).
              Post.ID (posts s ! j) \<noteq> ucast i \<longrightarrow> posts s' ! j = posts s ! j) \<and>
           users s' = users s \<and> userCounter s' = userCounter s \<and>
           postCounter s' = postCounter s"
proof (cases "ParseUint param")
  case (Inl e)
  with assms show ?thesis by (auto simp: updatePost_def JSON_def)
next
  case (Inr i)
  show ?thesis
  proof (cases bound)
    case (Inl err)
    with Inr assms show ?thesis by (auto simp: updatePost_def JSON_def)
  next
    case body: (Inr req)
    show ?thesis
    proof (cases "indexPost (posts s) (ucast i)")
      case None
      with Inr body assms show ?thesis by (auto simp: updatePost_def JSON_def)
    next
      case (Some k)
      from indexPost_Some [OF Some]
      have k: "k < length (posts s)" and id: "Post.ID (posts s ! k) = ucast i"
        and first: "\<forall>j < k. Post.ID (posts s ! j) \<noteq> ucast i"
        by simp_all
      have found: "findPost (posts s) (ucast i) = Some (posts s ! k)"
        by (simp add: findPost_indexPost Some)
      have others: "(posts s)[k := x] ! j = posts s ! j"
        if "Post.ID (posts s ! j) \<noteq> ucast i" for j x
      proof -
        from that id have "k \<noteq> j" by auto
        then show ?thesis by (rule nth_list_update_neq)
      qed
      from assms(1) Inr body Some
      have s': "s' = s\<lparr>posts := (posts s)[k := (posts s ! k)\<lparr>Title := req_Title req,
                         Content := req_Content req, Post.UpdatedAt := now\<rparr>]\<rparr>"
        and r: "r = JSON StatusOK (PostBody ((posts s)[k := (posts s ! k)\<lparr>Title := req_Title req,
                         Content := req_Content req, Post.UpdatedAt := now\<rparr>] ! k))"
        by (auto simp: updatePost_def Let_def)
      show ?thesis
        apply (rule exI [of _ i], rule exI [of _ k], rule exI [of _ req])
        using k id first found others Some body Inr by (simp add: s' r)
    qed
  qed
qed

text \<open>
  The post 2 of the sample state, updated at 500: it sits at index 1, the update
  changes that index, and the post 1 at index 0 stays as it was.
\<close>

lemma updatePost_sample:
  "updatePost 500 ''2'' (Inr postReq) sample =
     (JSON StatusOK (PostBody \<lparr>Post.ID = 2, Title = ''Hello'', Content = ''World'', AuthorID = 2,
                               Author = zeroUser, Post.CreatedAt = zeroTime, Post.UpdatedAt = 500\<rparr>),
      sample\<lparr>posts := [\<lparr>Post.ID = 1, Title = ''T'', Content = ''C'', AuthorID = 1,
                          Author = zeroUser, Post.CreatedAt = zeroTime, Post.UpdatedAt = zeroTime\<rparr>,
                         \<lparr>Post.ID = 2, Title = ''Hello'', Content = ''World'', AuthorID = 2,
                          Author = zeroUser, Post.CreatedAt = zeroTime, Post.UpdatedAt = 500\<rparr>]\<rparr>)"
  by (simp add: updatePost_def ParseUint_2 sample_def postReq_def JSON_def Let_def)

theorem updatePost_frame_witness:
  "updatePost 500 ''2'' (Inr postReq) sample =
     (JSON StatusOK (PostBody \<lparr>Post.ID = 2, Title = ''Hello'', Content = ''World'', AuthorID = 2,
                               Author = zeroUser, Post.CreatedAt = zeroTime, Post.UpdatedAt = 500\<rparr>),
      sample\<lparr>posts := [\<lparr>Post.ID = 1, Title = ''T'', Content = ''C'', AuthorID = 1,
                          Author = zeroUser, Post.CreatedAt = zeroTime, Post.UpdatedAt = zeroTime\<rparr>,
                         \<lparr>Post.ID = 2, Title = ''Hello'', Content = ''World'', AuthorID = 2,
                          Author = zeroUser, Post.CreatedAt = zeroTime, Post.UpdatedAt = 500\<rparr>]\<rparr>) \<and>
   status (JSON StatusOK (PostBody \<lparr>Post.ID = 2 :: 64 uint, Title = ''Hello'', Content = ''World'',
             AuthorID = 2, Author = zeroUser, Post.CreatedAt = zeroTime,
             Post.UpdatedAt = 500\<rparr>)) = StatusOK \<and>
   ParseUint ''2'' = Inr 2 \<and>
   indexPost (posts sample) (ucast (2 :: uint64)) = Some 1 \<and>
   Post.ID (posts sample ! 1) = ucast (2 :: uint64) \<and>
   0 < length (posts sample) \<and> (0 :: nat) \<noteq> 1 \<and>
   [\<lparr>Post.ID = 1, Title = ''T'', Content = ''C'', AuthorID = 1,
     Author = zeroUser, Post.CreatedAt = zeroTime, Post.UpdatedAt = zeroTime\<rparr>,
    \<lparr>Post.ID = 2 :: 64 uint, Title = ''Hello'', Content = ''World'', AuthorID = 2,
     Author = zeroUser, Post.CreatedAt = zeroTime, Post.UpdatedAt = 500\<rparr>] ! 0
   = posts sample ! 0"
proof -
  have st: "status (JSON StatusOK (PostBody \<lparr>Post.ID = 2 :: 64 uint, Title = ''Hello'',
             Content = ''World'', AuthorID = 2, Author = zeroUser, Post.CreatedAt = zeroTime,
             Post.UpdatedAt = 500\<rparr>)) = StatusOK"
    by (simp add: JSON_def)
  from updatePost_frame [OF updatePost_sample st] obtain i k
    where p: "ParseUint ''2'' = Inr i"
      and idx: "indexPost (posts sample) (ucast i) = Some k"
      and id: "Post.ID (posts sample ! k) = ucast i"
      and rest: "\<forall>j < length (posts sample). j \<noteq> k \<longrightarrow>
         [\<lparr>Post.ID = 1, Title = ''T'', Content = ''C'', AuthorID = 1,
           Author = zeroUser, Post.CreatedAt = zeroTime, Post.UpdatedAt = zeroTime\<rparr>,
          \<lparr>Post.ID = 2 :: 64 uint, Title = ''Hello'', Content = ''World'', AuthorID = 2,
           Author = zeroUser, Post.CreatedAt = zeroTime, Post.UpdatedAt = 500\<rparr>] ! j
         = posts sample ! j"
    by auto
  from p have i: "i = 2" by (simp add: ParseUint_2)
  have "indexPost (posts sample) (ucast (2 :: uint64)) = Some 1" by (simp add: sample_def)
  with idx i have k: "k = 1" by simp
  have len: "0 < length (posts sample)" "(0 :: nat) \<noteq> 1" by (simp_all add: sample_def)
  from rest [unfolded k] len
  have "[\<lparr>Post.ID = 1, Title = ''T'', Content = ''C'', AuthorID = 1,
           Author = zeroUser, Post.CreatedAt = zeroTime, Post.UpdatedAt = zeroTime\<rparr>,
          \<lparr>Post.ID = 2 :: 64 uint, Title = ''Hello'', Content = ''World'', AuthorID = 2,
           Author = zeroUser, Post.CreatedAt = zeroTime, Post.UpdatedAt = 500\<rparr>] ! 0
         = posts sample ! 0"
    by blast
  with p idx id len show ?thesis
    unfolding i k using updatePost_sample st by blast
qed

subsection \<open>The id path parameter: 400 before 404\<close>

lemma by_id_malformed:
  assumes "id_param rq = Some param" and "\<not> is_uint32_decimal param"
  shows "status (fst (handle now rq s)) = StatusBadRequest \<and>
         (payload (fst (handle now rq s)) = ErrorBody ''Invalid user ID'' \<or>
          payload (fst (handle now rq s)) = ErrorBody ''Invalid post ID'') \<and>
         snd (handle now rq s) = s"
proof -
  from assms(2) obtain e where "ParseUint param = Inl e"
    using ParseUint_error_iff [of param] by blast
  with assms(1) show ?thesis
    by (cases rq)
       (simp_all add: getUser_def updateUser_def deleteUser_def
                      getPost_def updatePost_def deletePost_def JSON_def)
qed

lemma by_id_not_found:
  fixes s :: "'w::len uint state"
  assumes "id_param rq = Some param" and "status (fst (handle now rq s)) = StatusNotFound"
  shows "is_uint32_decimal param \<and>
         \<not> entity_present rq (of_nat (decimal_value param)) s \<and>
         snd (handle now rq s) = s"
proof (cases "ParseUint param")
  case (Inl e)
  with assms show ?thesis
    by (cases rq)
       (simp_all add: getUser_def updateUser_def deleteUser_def
                      getPost_def updatePost_def deletePost_def JSON_def)
next
  case (Inr i)
  then have wf: "is_uint32_decimal param" by (simp add: ParseUint_iff)
  note uc = ucast_parsed [OF Inr, where 'w = 'w]
  from assms Inr show ?thesis
    unfolding uc [symmetric]
    by (cases rq)
       (auto simp: getUser_def updateUser_def deleteUser_def wf entity_present_def
                   getPost_def updatePost_def deletePost_def JSON_def Let_def
                   findUser_indexUser findPost_indexPost
                   indexUser_None_iff [symmetric] indexPost_None_iff [symmetric]
             split: sum.splits option.splits if_splits)
qed

lemma by_id_absent:
  fixes s :: "'w::len uint state"
  assumes "id_param rq = Some param" and "is_uint32_decimal param" and "body_bound rq"
    and "\<not> entity_present rq (of_nat (decimal_value param)) s"
  shows "status (fst (handle now rq s)) = StatusNotFound"
proof -
  from assms(2) have "unat (of_nat (decimal_value param) :: uint64) = decimal_value param"
    by (simp add: is_uint32_decimal_def unat_of_nat)
  with assms(2) have p: "ParseUint param = Inr (of_nat (decimal_value param))"
    by (simp add: ParseUint_iff)
  note uc = ucast_parsed [OF p, where 'w = 'w]
  from assms(1,3,4) show ?thesis
    unfolding uc [symmetric]
    by (cases rq rule: body_bound.cases)
       (simp_all add: getUser_def updateUser_def deleteUser_def entity_present_def p
                      getPost_def updatePost_def deletePost_def JSON_def
                      findUser_indexUser findPost_indexPost
                      indexUser_None_iff [symmetric] indexPost_None_iff [symmetric])
qed

text \<open>
  Claim C9. For each of the six by-id requests (get, update, delete, on users and on
  posts): when the id parameter is not a decimal numeral that fits 32 bits, the answer is
  400 with the invalid-id message and the state is untouched, whatever the body and
  whatever the collections hold; an answer 404 is only given when the parameter is such
  a numeral and no entity of the repository has its value as identity; and with such a
  parameter, a bound body and no such entity, the answer is 404. The parameter is parsed
  before anything else is looked at.
\<close>

theorem by_id_400_before_404:
  fixes s :: "'w::len uint state"
  assumes "id_param rq = Some param"
  shows "(\<not> is_uint32_decimal param \<longrightarrow>
            status (fst (handle now rq s)) = StatusBadRequest \<and>
            (payload (fst (handle now rq s)) = ErrorBody ''Invalid user ID'' \<or>
             payload (fst (handle now rq s)) = ErrorBody ''Invalid post ID'') \<and>
            snd (handle now rq s) = s) \<and>
         (status (fst (handle now rq s)) = StatusNotFound \<longrightarrow>
            is_uint32_decimal param \<and>
            \<not> entity_present rq (of_nat (decimal_value param)) s \<and>
            snd (handle now rq s) = s) \<and>
         (is_uint32_decimal param \<and> body_bound rq \<and>
          \<not> entity_present rq (of_nat (decimal_value param)) s \<longrightarrow>
            status (fst (handle now rq s)) = StatusNotFound)"
  using by_id_malformed [OF assms] by_id_not_found [OF assms] by_id_absent [OF assms]
  by blast

text \<open>
  Against the sample state: \<^verbatim>\<open>PUT /users/abc\<close> is answered 400 though its body is
  bound, and \<^verbatim>\<open>DELETE /posts/7\<close> is answered 404.
\<close>

theorem by_id_400_before_404_witness:
  "id_param (PUT_user ''abc'' (Inr aliceReq)) = Some ''abc'' \<and>
   \<not> is_uint32_decimal ''abc'' \<and>
   handle 500 (PUT_user ''abc'' (Inr aliceReq)) sample =
     (JSON StatusBadRequest (ErrorBody ''Invalid user ID''), sample) \<and>
   id_param (DELETE_post ''7'') = Some ''7'' \<and>
   is_uint32_decimal ''7'' \<and> body_bound (DELETE_post ''7'') \<and>
   \<not> entity_present (DELETE_post ''7'') (of_nat (decimal_value ''7'')) sample \<and>
   status (fst (handle 500 (DELETE_post ''7'') sample)) = StatusNotFound \<and>
   snd (handle 500 (DELETE_post ''7'') sample) = sample"
proof -
  have a: "id_param (PUT_user ''abc'' (Inr aliceReq)) = Some ''abc''" by simp
  have b: "\<not> is_uint32_decimal ''abc''"
    using ParseUint_error_iff [of "''abc''"] ParseUint_abc by blast
  have c: "id_param (DELETE_post ''7'') = Some ''7''" by simp
  have d: "is_uint32_decimal ''7''" "decimal_value ''7'' = 7"
    using ParseUint_iff [of "''7''" 7] ParseUint_7 by simp_all
  have e: "body_bound (DELETE_post ''7'')" by simp
  have f: "\<not> entity_present (DELETE_post ''7'') (of_nat (decimal_value ''7'')) sample"
    by (simp add: d entity_present_def sample_def)
  have g: "handle 500 (PUT_user ''abc'' (Inr aliceReq)) sample =
     (JSON StatusBadRequest (ErrorBody ''Invalid user ID''), sample)"
    using by_id_400_before_404 [OF a, of 500 sample] b
    by (simp add: prod_eq_iff JSON_def updateUser_def ParseUint_abc)
  from by_id_400_before_404 [OF c, of 500 sample] d e f
  have "status (fst (handle 500 (DELETE_post ''7'') sample)) = StatusNotFound \<and>
        snd (handle 500 (DELETE_post ''7'') sample) = sample"
    by blast
  with a b c d e f g show ?thesis by blast
qed

subsection \<open>The two repositories do not write to each other\<close>

lemma user_handlers_frame:
  "posts (snd (getUsers s)) = posts s \<and> postCounter (snd (getUsers s)) = postCounter s"
  "posts (snd (createUser buser s)) = posts s \<and>
   postCounter (snd (createUser buser s)) = postCounter s"
  "posts (snd (getUser param s)) = posts s \<and> postCounter (snd (getUser param s)) = postCounter s"
  "posts (snd (updateUser now param buser s)) = posts s \<and>
   postCounter (snd (updateUser now param buser s)) = postCounter s"
  "posts (snd (deleteUser param s)) = posts s \<and>
   postCounter (snd (deleteUser param s)) = postCounter s"
  by (simp_all add: getUsers_def createUser_def getUser_def updateUser_def deleteUser_def Let_def
        split: sum.split option.split)

lemma post_handlers_frame:
  "users (snd (getPosts s)) = users s \<and> userCounter (snd (getPosts s)) = userCounter s"
  "users (snd (createPost bpost s)) = users s \<and>
   userCounter (snd (createPost bpost s)) = userCounter s"
  "users (snd (getPost param s)) = users s \<and> userCounter (snd (getPost param s)) = userCounter s"
  "users (snd (updatePost now param bpost s)) = users s \<and>
   userCounter (snd (updatePost now param bpost s)) = userCounter s"
  "users (snd (deletePost param s)) = users s \<and>
   userCounter (snd (deletePost param s)) = userCounter s"
  by (simp_all add: getPosts_def createPost_def getPost_def updatePost_def deletePost_def Let_def
        split: sum.split option.split)

text \<open>
  Claim C10. Every request on the user repository (list, create, get, update, delete)
  leaves the post collection and the post counter as they were, and every request on the
  post repository leaves the user collection and the user counter as they were;
  \<^verbatim>\<open>createPost\<close>, which reads the user list, is among the latter. In particular deleting
  a user removes no post and changes none: posts that carry the user's id as
  \<^verbatim>\<open>AuthorID\<close> stay in place.
\<close>

theorem repositories_separate:
  "(is_user_request rq \<longrightarrow>
      posts (snd (handle now rq s)) = posts s \<and>
      postCounter (snd (handle now rq s)) = postCounter s) \<and>
   (\<not> is_user_request rq \<longrightarrow>
      users (snd (handle now rq s)) = users s \<and>
      userCounter (snd (handle now rq s)) = userCounter s)"
  by (cases rq) (simp_all add: user_handlers_frame post_handlers_frame)

text \<open>
  In the sample state the second post has the author 2. Deleting the user 2 succeeds and
  the posts are what they were; creating a post leaves the users what they were.
\<close>

theorem repositories_separate_witness:
  "is_user_request (DELETE_user ''2'') \<and>
   status (fst (handle 500 (DELETE_user ''2'') sample)) = StatusOK \<and>
   users (snd (handle 500 (DELETE_user ''2'') sample)) =
     [\<lparr>User.ID = 3, Username = ''carol'', Email = ''c@x.com'',
       User.CreatedAt = zeroTime, User.UpdatedAt = zeroTime\<rparr>] \<and>
   posts (snd (handle 500 (DELETE_user ''2'') sample)) = posts sample \<and>
   postCounter (snd (handle 500 (DELETE_user ''2'') sample)) = postCounter sample \<and>
   AuthorID (posts (snd (handle 500 (DELETE_user ''2'') sample)) ! 1) = 2 \<and>
   \<not> is_user_request (POST_posts (Inr postReq)) \<and>
   users (snd (handle 500 (POST_posts (Inr postReq)) sample)) = users sample \<and>
   userCounter (snd (handle 500 (POST_posts (Inr postReq)) sample)) = userCounter sample"
proof -
  have a: "is_user_request (DELETE_user ''2'')" "\<not> is_user_request (POST_posts (Inr postReq))"
    by simp_all
  have b: "status (fst (handle 500 (DELETE_user ''2'') sample)) = StatusOK"
          "users (snd (handle 500 (DELETE_user ''2'') sample)) =
             [\<lparr>User.ID = 3, Username = ''carol'', Email = ''c@x.com'',
               User.CreatedAt = zeroTime, User.UpdatedAt = zeroTime\<rparr>]"
    by (simp_all add: deleteUser_def ParseUint_2 sample_def JSON_def)
  have c: "AuthorID (posts sample ! 1) = 2" by (simp add: sample_def)
  from repositories_separate [of "DELETE_user ''2''" 500 sample]
       repositories_separate [of "POST_posts (Inr postReq)" 500 sample] a b c
  show ?thesis by simp
qed

end
